theory Spec2Isabelle
  imports Main "HOL-Library.Sublist"
begin

section \<open>Errors and resources\<close>

text \<open>
  The channel layer of \<^verbatim>\<open>src/channel.ts\<close>. Every exception the code can raise and every
  rejected promise is a value of \<open>error\<close>: \<open>Error msg\<close> is \<^verbatim>\<open>new Error(msg)\<close>,
  \<open>SyntaxError\<close> is what \<^verbatim>\<open>JSON.parse\<close> raises on malformed text, \<open>TypeError\<close> is what the
  runtime raises when a property of \<^verbatim>\<open>undefined\<close> or \<^verbatim>\<open>null\<close> is read. \<open>NotFound\<close> is
  the error the data model names for a missing entry; no statement of the code raises it, and
  it is a value here so that the theorems can say so.
\<close>

datatype error = Error string | SyntaxError | TypeError | NotFound

text \<open>\<^verbatim>\<open>UriComponents\<close>: the wire form of a resource.\<close>

record UriComponents =
  scheme :: string
  authority :: string
  path :: string
  query :: string
  fragment :: string

text \<open>
  A \<^verbatim>\<open>URI\<close> object is known here only through the two factory calls of the source:
  \<^verbatim>\<open>URI.file(p)\<close>, the file resource of the local path \<open>p\<close>, and \<^verbatim>\<open>URI.from(c)\<close>, the
  resource with the components \<open>c\<close> unchanged. The class is not part of this file.
  \<^verbatim>\<open>URI.file\<close> on a string is taken to return the resource it names. \<^verbatim>\<open>URI.from\<close>
  validates the components it is given and raises on those it refuses: where the code calls
  it, the model calls a parameter \<open>URI_from_factory\<close>, which returns a resource or raises.
\<close>

datatype URI = URI_file string | URI_from UriComponents

text \<open>
  A value produced by \<^verbatim>\<open>JSON.parse\<close>. An object lists its own properties, one per key. A
  number is kept as an integer: the code reads of a number only whether it is zero.
\<close>

datatype json =
    JNull
  | JBool bool
  | JNumber int
  | JString string
  | JArray "json list"
  | JObject "(string \<times> json) list"

text \<open>A value read from a property: \<^verbatim>\<open>undefined\<close> when the property is absent.\<close>

datatype jsval = Undefined | Value json

section \<open>String primitives\<close>

text \<open>\<^verbatim>\<open>s.indexOf(pat)\<close>: the position of the first occurrence of \<open>pat\<close> in \<open>s\<close>, or \<open>-1\<close>.\<close>

fun indexOf_from :: "nat \<Rightarrow> string \<Rightarrow> string \<Rightarrow> int" where
  "indexOf_from i [] pat = (if pat = [] then int i else - 1)"
| "indexOf_from i (c # cs) pat =
     (if prefix pat (c # cs) then int i else indexOf_from (Suc i) cs pat)"

definition indexOf :: "string \<Rightarrow> string \<Rightarrow> int" where
  "indexOf s pat = indexOf_from 0 s pat"

text \<open>
  \<^verbatim>\<open>s.replace(/^\/static/, "")\<close>: the pattern is anchored at position 0 and is a literal, so
  the call deletes a leading \<^verbatim>\<open>/static\<close> and changes nothing else.
\<close>

definition replace_leading_static :: "string \<Rightarrow> string" where
  "replace_leading_static s =
     (if prefix ''/static'' s then drop (length ''/static'') s else s)"

section \<open>Path remapping: \<^verbatim>\<open>FileProviderChannel.transform\<close>\<close>

text \<open>Truthiness of a value, as \<^verbatim>\<open>if (v)\<close> tests it.\<close>

fun truthy :: "jsval \<Rightarrow> bool" where
  "truthy Undefined = False"
| "truthy (Value JNull) = False"
| "truthy (Value (JBool b)) = b"
| "truthy (Value (JNumber n)) = (n \<noteq> 0)"
| "truthy (Value (JString s)) = (s \<noteq> [])"
| "truthy (Value (JArray xs)) = True"
| "truthy (Value (JObject kvs)) = True"

text \<open>
  \<^verbatim>\<open>query.requestResourcePath\<close>, for a property name that no prototype defines: reading a
  property of \<^verbatim>\<open>null\<close> raises a \<open>TypeError\<close>; a primitive or an array has no such
  property; an object is looked up.
\<close>

fun get_property :: "json \<Rightarrow> string \<Rightarrow> error + jsval" where
  "get_property JNull k = Inl TypeError"
| "get_property (JObject kvs) k =
     (case map_of kvs k of None \<Rightarrow> Inr Undefined | Some v \<Rightarrow> Inr (Value v))"
| "get_property j k = Inr Undefined"

text \<open>
  The environment service, as far as the channels read it. \<^verbatim>\<open>extensionsPath\<close> is optional in
  the interface and read with a non-null assertion by the source, so it is a plain string here.
\<close>

record IEnvironmentService =
  appRoot :: string
  userDataPath :: string
  logsPath :: string
  extensionsPath :: string
  builtinExtensionsPath :: string
  extraExtensionPaths :: "string list"
  extraBuiltinExtensionPaths :: "string list"
  globalStorageHome :: string
  userHome :: string
  appSettingsHome :: URI
  machineSettingsHome :: URI

text \<open>
  \<^verbatim>\<open>URI.file(v)\<close> on a value of the untyped parsed query. On a string it is the file resource
  of that path. What the factory does with any other value is not this file's business: the
  parameter \<open>URI_file_other\<close> stands for it, and it may raise or build some resource.
\<close>

fun URI_file_untyped :: "(jsval \<Rightarrow> error + URI) \<Rightarrow> jsval \<Rightarrow> error + URI" where
  "URI_file_untyped URI_file_other (Value (JString p)) = Inr (URI_file p)"
| "URI_file_untyped URI_file_other v = URI_file_other v"

text \<open>
  The body of the \<^verbatim>\<open>try\<close> block of \<open>transform\<close>. \<open>Inl e\<close>: the block raised \<open>e\<close>;
  \<open>Inr (Some u)\<close>: it returned \<open>u\<close>; \<open>Inr None\<close>: it ran to its end without returning.
  \<open>JSON_parse\<close> is the runtime's parser.
\<close>

definition transform_try ::
  "(string \<Rightarrow> error + json) \<Rightarrow> (jsval \<Rightarrow> error + URI) \<Rightarrow> string \<Rightarrow> error + URI option"
where
  "transform_try JSON_parse URI_file_other q =
     (case JSON_parse q of
        Inl e \<Rightarrow> Inl e
      | Inr parsed \<Rightarrow>
          (case get_property parsed ''requestResourcePath'' of
             Inl e \<Rightarrow> Inl e
           | Inr v \<Rightarrow>
               if truthy v then
                 (case URI_file_untyped URI_file_other v of
                    Inl e \<Rightarrow> Inl e
                  | Inr u \<Rightarrow> Inr (Some u))
               else Inr None))"

text \<open>
  \<open>transform\<close>, with its result as a sum: \<open>Inl e\<close> is the exception \<open>e\<close> leaving the
  function. The \<^verbatim>\<open>catch\<close> clause has an empty body: an exception of the \<^verbatim>\<open>try\<close> block and
  a block that ends without returning both continue at the last statement,
  \<^verbatim>\<open>return URI.from(resource)\<close>. That statement is outside the \<^verbatim>\<open>try\<close>: what the factory
  raises there leaves the function.
\<close>

definition transform ::
  "(string \<Rightarrow> error + json) \<Rightarrow> (jsval \<Rightarrow> error + URI) \<Rightarrow> (UriComponents \<Rightarrow> error + URI) \<Rightarrow>
   IEnvironmentService \<Rightarrow> UriComponents \<Rightarrow> error + URI"
where
  "transform JSON_parse URI_file_other URI_from_factory env resource =
     (if indexOf (path resource) ''/static'' = 0 then
        Inr (URI_file (appRoot env @ replace_leading_static (path resource)))
      else if path resource = ''/vscode-resource'' \<and> query resource \<noteq> [] then
        (case transform_try JSON_parse URI_file_other (query resource) of
           Inr (Some u) \<Rightarrow> Inr u
         | Inr None \<Rightarrow> URI_from_factory resource
         | Inl e \<Rightarrow> URI_from_factory resource)
      else URI_from_factory resource)"

section \<open>The runtime's \<^verbatim>\<open>Map\<close>\<close>

text \<open>
  A \<^verbatim>\<open>Map\<close> keeps its entries in insertion order, one per key. \<^verbatim>\<open>set\<close> on a key that is
  present replaces the value where it stands; on a new key it appends.
\<close>

type_synonym ('k, 'v) Map = "('k \<times> 'v) list"

fun Map_set :: "'k \<Rightarrow> 'v \<Rightarrow> ('k, 'v) Map \<Rightarrow> ('k, 'v) Map" where
  "Map_set k v [] = [(k, v)]"
| "Map_set k v ((k', v') # m) = (if k' = k then (k, v) # m else (k', v') # Map_set k v m)"

definition Map_get :: "('k, 'v) Map \<Rightarrow> 'k \<Rightarrow> 'v option" where
  "Map_get m k = map_of m k"

definition Map_has :: "('k, 'v) Map \<Rightarrow> 'k \<Rightarrow> bool" where
  "Map_has m k = (map_of m k \<noteq> None)"

definition Map_delete :: "'k \<Rightarrow> ('k, 'v) Map \<Rightarrow> ('k, 'v) Map" where
  "Map_delete k m = filter (\<lambda>p. fst p \<noteq> k) m"

definition Map_values :: "('k, 'v) Map \<Rightarrow> 'v list" where
  "Map_values m = map snd m"

definition Map_keys :: "('k, 'v) Map \<Rightarrow> 'k list" where
  "Map_keys m = map fst m"

section \<open>\<^verbatim>\<open>Watcher\<close>: the watch subscriptions of one session\<close>

record IWatchOptions =
  recursive :: bool
  excludes :: "string list"

text \<open>
  A subscription handle is the \<^verbatim>\<open>IDisposable\<close> that \<^verbatim>\<open>DiskFileSystemProvider.watch\<close> returns.
  Each call returns a new object; the \<open>n\<close>-th call on a provider returns handle \<open>n\<close>.
\<close>

type_synonym handle = nat

text \<open>
  The state of a \<open>Watcher\<close>: its \<open>watches\<close> map, and what it has done to the disk provider it
  extends: the subscriptions \<open>opened\<close> (handle \<open>h\<close> is entry \<open>h\<close>), the \<^verbatim>\<open>dispose()\<close> calls
  made on handles, in order, and whether \<^verbatim>\<open>super.dispose()\<close> has run.
\<close>

record Watcher =
  watches :: "(int, handle) Map"
  opened :: "(URI \<times> IWatchOptions) list"
  released :: "handle list"
  provider_disposed :: bool

definition Watcher_new :: Watcher where
  "Watcher_new = \<lparr>watches = [], opened = [], released = [], provider_disposed = False\<rparr>"

definition DiskFileSystemProvider_watch ::
  "Watcher \<Rightarrow> URI \<Rightarrow> IWatchOptions \<Rightarrow> handle \<times> Watcher" where
  "DiskFileSystemProvider_watch w resource opts =
     (length (opened w), w\<lparr>opened := opened w @ [(resource, opts)]\<rparr>)"

definition Watcher_watch :: "Watcher \<Rightarrow> int \<Rightarrow> URI \<Rightarrow> IWatchOptions \<Rightarrow> Watcher" where
  "Watcher_watch w req resource opts =
     (case DiskFileSystemProvider_watch w resource opts of
        (h, w') \<Rightarrow> w'\<lparr>watches := Map_set req h (watches w')\<rparr>)"

definition Watcher_unwatch :: "Watcher \<Rightarrow> int \<Rightarrow> error + Watcher" where
  "Watcher_unwatch w req =
     (case Map_get (watches w) req of
        None \<Rightarrow> Inl TypeError
      | Some h \<Rightarrow>
          Inr (w\<lparr>released := released w @ [h], watches := Map_delete req (watches w)\<rparr>))"

definition Watcher_dispose :: "Watcher \<Rightarrow> Watcher" where
  "Watcher_dispose w =
     w\<lparr>released := released w @ Map_values (watches w), watches := [],
       provider_disposed := True\<rparr>"

text \<open>
  The life of a session's \<open>Watcher\<close>: created empty, then any sequence of the three calls.
  An \<^verbatim>\<open>unwatch\<close> that raises changes nothing, and the session goes on.
\<close>

datatype Watcher_call =
    Call_watch int URI IWatchOptions
  | Call_unwatch int
  | Call_dispose

fun Watcher_step :: "Watcher \<Rightarrow> Watcher_call \<Rightarrow> Watcher" where
  "Watcher_step w (Call_watch req resource opts) = Watcher_watch w req resource opts"
| "Watcher_step w (Call_unwatch req) =
     (case Watcher_unwatch w req of Inl e \<Rightarrow> w | Inr w' \<Rightarrow> w')"
| "Watcher_step w Call_dispose = Watcher_dispose w"

definition Watcher_run :: "Watcher \<Rightarrow> Watcher_call list \<Rightarrow> Watcher" where
  "Watcher_run w calls = foldl Watcher_step w calls"

text \<open>
  What holds in every state a \<open>Watcher\<close> can reach: the map has one entry per request id; no
  handle is stored twice, released twice, or both stored and released; every handle stored
  or released was opened.
\<close>

definition Watcher_inv :: "Watcher \<Rightarrow> bool" where
  "Watcher_inv w \<longleftrightarrow>
     distinct (Map_keys (watches w)) \<and>
     distinct (Map_values (watches w) @ released w) \<and>
     list_all (\<lambda>h. h < length (opened w)) (Map_values (watches w) @ released w)"

text \<open>A handle that was opened and is no longer in the map.\<close>

definition dropped :: "Watcher \<Rightarrow> handle \<Rightarrow> bool" where
  "dropped w h \<longleftrightarrow> h < length (opened w) \<and> h \<notin> set (Map_values (watches w))"

section \<open>\<^verbatim>\<open>FileProviderChannel\<close>: the sessions and the watch commands\<close>

text \<open>
  The channel keeps one \<open>Watcher\<close> per session id. A \<open>Watcher\<close> is an object that the map
  refers to: a call that mutates it is, in the model, a \<open>Map_set\<close> of the session's entry.
\<close>

record FileProviderChannel =
  watchers :: "(string, Watcher) Map"

definition FileProviderChannel_new :: FileProviderChannel where
  "FileProviderChannel_new = \<lparr>watchers = []\<rparr>"

text \<open>
  \<^verbatim>\<open>onFirstListenerAdd\<close> of the \<^verbatim>\<open>filechange\<close> event: the session gets a new \<open>Watcher\<close>.
\<close>

definition onFirstListenerAdd :: "FileProviderChannel \<Rightarrow> string \<Rightarrow> FileProviderChannel" where
  "onFirstListenerAdd ch session = ch\<lparr>watchers := Map_set session Watcher_new (watchers ch)\<rparr>"

text \<open>
  The commands \<^verbatim>\<open>watch\<close> and \<^verbatim>\<open>unwatch\<close>, to which \<^verbatim>\<open>call\<close> passes its positional
  arguments. Both are \<^verbatim>\<open>async\<close>: an exception raised in the body rejects the returned promise.
  \<open>Inl e\<close> is the promise rejected with \<open>e\<close>, and no state was changed before the exception;
  \<open>Inr ch'\<close> is the promise resolved, with the channel as the call left it.
  \<^verbatim>\<open>this.watchers.get(session)!\<close> is \<^verbatim>\<open>undefined\<close> for an unknown session, and calling a
  method of it raises a \<open>TypeError\<close>.
\<close>

definition FileProviderChannel_watch ::
  "(string \<Rightarrow> error + json) \<Rightarrow> (jsval \<Rightarrow> error + URI) \<Rightarrow> (UriComponents \<Rightarrow> error + URI) \<Rightarrow>
   IEnvironmentService \<Rightarrow> FileProviderChannel \<Rightarrow> string \<Rightarrow> int \<Rightarrow> UriComponents \<Rightarrow>
   IWatchOptions \<Rightarrow> error + FileProviderChannel"
where
  "FileProviderChannel_watch JSON_parse URI_file_other URI_from_factory env ch session req
     resource opts =
     (case Map_get (watchers ch) session of
        None \<Rightarrow> Inl TypeError
      | Some w \<Rightarrow>
          (case transform JSON_parse URI_file_other URI_from_factory env resource of
             Inl e \<Rightarrow> Inl e
           | Inr u \<Rightarrow>
               Inr (ch\<lparr>watchers := Map_set session (Watcher_watch w req u opts) (watchers ch)\<rparr>)))"

definition FileProviderChannel_unwatch ::
  "FileProviderChannel \<Rightarrow> string \<Rightarrow> int \<Rightarrow> error + FileProviderChannel"
where
  "FileProviderChannel_unwatch ch session req =
     (case Map_get (watchers ch) session of
        None \<Rightarrow> Inl TypeError
      | Some w \<Rightarrow>
          (case Watcher_unwatch w req of
             Inl e \<Rightarrow> Inl e
           | Inr w' \<Rightarrow> Inr (ch\<lparr>watchers := Map_set session w' (watchers ch)\<rparr>)))"

section \<open>Promises\<close>

text \<open>
  A promise that has settled: at which instant, and how. Time is logical, a count of instants
  from an arbitrary origin. An asynchronous call of outside code is given by how it settles
  and by its latency, the number of instants from the call to the settlement; the theorems
  hold for every latency.
\<close>

record 'a promise =
  settled_at :: nat
  outcome :: "error + 'a"

definition launch :: "nat \<Rightarrow> nat \<Rightarrow> error + 'a \<Rightarrow> 'a promise" where
  "launch now latency result = \<lparr>settled_at = now + latency, outcome = result\<rparr>"

fun rejections :: "'a promise list \<Rightarrow> (nat \<times> error) list" where
  "rejections [] = []"
| "rejections (p # ps) =
     (case outcome p of Inl e \<Rightarrow> (settled_at p, e) # rejections ps | Inr v \<Rightarrow> rejections ps)"

fun fulfilled :: "'a promise list \<Rightarrow> 'a list" where
  "fulfilled [] = []"
| "fulfilled (p # ps) =
     (case outcome p of Inl e \<Rightarrow> fulfilled ps | Inr v \<Rightarrow> v # fulfilled ps)"

text \<open>The rejection that happens first; of two at the same instant, the one listed first.\<close>

fun earliest :: "(nat \<times> error) list \<Rightarrow> (nat \<times> error) option" where
  "earliest [] = None"
| "earliest (x # xs) =
     (case earliest xs of
        None \<Rightarrow> Some x
      | Some y \<Rightarrow> if fst x \<le> fst y then Some x else Some y)"

text \<open>
  \<^verbatim>\<open>Promise.all(ps)\<close>, called at \<open>now\<close>: it rejects as soon as one of \<open>ps\<close> rejects, with
  that reason; otherwise it resolves once all of \<open>ps\<close> have, with their values in the order of
  \<open>ps\<close>, whatever the order in which they settled.
\<close>

definition Promise_all :: "nat \<Rightarrow> 'a promise list \<Rightarrow> 'a list promise" where
  "Promise_all now ps =
     (case earliest (rejections ps) of
        Some (t, e) \<Rightarrow> \<lparr>settled_at = t, outcome = Inl e\<rparr>
      | None \<Rightarrow> \<lparr>settled_at = foldr max (map settled_at ps) now, outcome = Inr (fulfilled ps)\<rparr>)"

section \<open>Extension discovery: \<^verbatim>\<open>ExtensionEnvironmentChannel.scanExtensions\<close>\<close>

text \<open>
  An extension descriptor, as far as the merge reads it: the identifier and the install
  location. The type of identifiers is left open.
\<close>

record 'id IExtensionDescription =
  "identifier" :: 'id
  extensionLocation :: URI
  version :: string

text \<open>The arguments of \<^verbatim>\<open>new ExtensionScannerInput(...)\<close>, in their order.\<close>

record 'tr ExtensionScannerInput =
  ourVersion :: string
  commit :: "string option"
  input_locale :: string
  devMode :: bool
  absoluteFolderPath :: string
  isBuiltin :: bool
  isUnderDevelopment :: bool
  nlsTranslations :: 'tr

datatype OperatingSystem = Windows | Macintosh | Linux

record 'id IRemoteAgentEnvironment =
  pid :: nat
  connectionToken :: string
  agent_appRoot :: URI
  agent_appSettingsHome :: URI
  settingsPath :: URI
  agent_logsPath :: URI
  agent_extensionsPath :: URI
  extensionHostLogsPath :: URI
  agent_globalStorageHome :: URI
  agent_userHome :: URI
  extensions :: "'id IExtensionDescription list"
  os :: OperatingSystem

text \<open>
  What the channel imports and does not define: product constants, the process, the
  translation loader and the manifest scanner (each with its result and its latency), the
  identifier's key, the local path of a resource, and the outgoing address translation.
\<close>

record ('tr, 'id) platform =
  pkg_version :: string
  product_commit :: "string option"
  VSCODE_DEV :: "string option"
  process_pid :: nat
  OS :: OperatingSystem
  path_join :: "string \<Rightarrow> string \<Rightarrow> string"
  getTranslations :: "string \<Rightarrow> string \<Rightarrow> error + 'tr"
  getTranslations_latency :: "string \<Rightarrow> string \<Rightarrow> nat"
  ExtensionScanner_scanExtensions ::
    "'tr ExtensionScannerInput \<Rightarrow> error + 'id IExtensionDescription list"
  ExtensionScanner_latency :: "'tr ExtensionScannerInput \<Rightarrow> nat"
  toKey :: "'id \<Rightarrow> string"
  fsPath :: "URI \<Rightarrow> string"
  getUriTransformer :: "string \<Rightarrow> URI \<Rightarrow> URI"
  transformOutgoingURIs ::
    "'id IRemoteAgentEnvironment \<Rightarrow> (URI \<Rightarrow> URI) \<Rightarrow> 'id IRemoteAgentEnvironment"

definition scannerInput ::
  "('tr, 'id) platform \<Rightarrow> string \<Rightarrow> 'tr \<Rightarrow> bool \<Rightarrow> bool \<Rightarrow> string \<Rightarrow> 'tr ExtensionScannerInput"
where
  "scannerInput pf loc tr builtin underDevelopment folder =
     \<lparr>ourVersion = pkg_version pf,
      commit = product_commit pf,
      input_locale = loc,
      devMode = (case VSCODE_DEV pf of None \<Rightarrow> False | Some s \<Rightarrow> s \<noteq> []),
      absoluteFolderPath = folder,
      isBuiltin = builtin,
      isUnderDevelopment = underDevelopment,
      nlsTranslations = tr\<rparr>"

text \<open>
  \<open>scanMultiple\<close>: one scan per path, all started at \<open>now\<close>, joined by \<^verbatim>\<open>Promise.all\<close>.
  No scan is wrapped in a handler.
\<close>

definition scanMultiple ::
  "('tr, 'id) platform \<Rightarrow> string \<Rightarrow> 'tr \<Rightarrow> nat \<Rightarrow> bool \<Rightarrow> bool \<Rightarrow> string list \<Rightarrow>
   'id IExtensionDescription list list promise"
where
  "scanMultiple pf loc tr now builtin underDevelopment paths =
     Promise_all now
       (map (\<lambda>folder.
               launch now
                 (ExtensionScanner_latency pf
                    (scannerInput pf loc tr builtin underDevelopment folder))
                 (ExtensionScanner_scanExtensions pf
                    (scannerInput pf loc tr builtin underDevelopment folder)))
          paths)"

definition scanBuiltin ::
  "('tr, 'id) platform \<Rightarrow> IEnvironmentService \<Rightarrow> string \<Rightarrow> 'tr \<Rightarrow> nat \<Rightarrow>
   'id IExtensionDescription list list promise"
where
  "scanBuiltin pf env loc tr now =
     scanMultiple pf loc tr now True False
       (builtinExtensionsPath env # extraBuiltinExtensionPaths env)"

definition scanInstalled ::
  "('tr, 'id) platform \<Rightarrow> IEnvironmentService \<Rightarrow> string \<Rightarrow> 'tr \<Rightarrow> nat \<Rightarrow>
   'id IExtensionDescription list list promise"
where
  "scanInstalled pf env loc tr now =
     scanMultiple pf loc tr now False True
       (extensionsPath env # extraExtensionPaths env)"

text \<open>\<^verbatim>\<open>ExtensionIdentifier.toKey(extension.identifier)\<close>: the normalized identity.\<close>

definition extension_key :: "('tr, 'id) platform \<Rightarrow> 'id IExtensionDescription \<Rightarrow> string" where
  "extension_key pf extension = toKey pf (identifier extension)"

definition overridden_warning :: "string \<Rightarrow> string \<Rightarrow> string" where
  "overridden_warning oldPath newPath = oldPath @ '' has been overridden '' @ newPath"

text \<open>
  The body of the innermost \<^verbatim>\<open>forEach\<close>, on the accumulator: the \<open>uniqueExtensions\<close> map and
  the warnings logged so far. Where \<^verbatim>\<open>uniqueExtensions.has(id)\<close> holds,
  \<^verbatim>\<open>uniqueExtensions.get(id)\<close> is the extension stored under the key.
\<close>

definition merge_extension ::
  "('tr, 'id) platform \<Rightarrow>
   (string, 'id IExtensionDescription) Map \<times> string list \<Rightarrow> 'id IExtensionDescription \<Rightarrow>
   (string, 'id IExtensionDescription) Map \<times> string list"
where
  "merge_extension pf acc extension =
     (case acc of (uniqueExtensions, warnings) \<Rightarrow>
        (let key = extension_key pf extension in
           (Map_set key extension uniqueExtensions,
            (if Map_has uniqueExtensions key then
               (case Map_get uniqueExtensions key of
                  None \<Rightarrow> warnings
                | Some previous \<Rightarrow>
                    warnings @
                      [overridden_warning (fsPath pf (extensionLocation previous))
                         (fsPath pf (extensionLocation extension))])
             else warnings))))"

text \<open>The three nested \<^verbatim>\<open>forEach\<close> loops of the \<^verbatim>\<open>then\<close> callback.\<close>

definition merge_results ::
  "('tr, 'id) platform \<Rightarrow> 'id IExtensionDescription list list list \<Rightarrow>
   (string, 'id IExtensionDescription) Map \<times> string list"
where
  "merge_results pf allExtensions =
     foldl (\<lambda>acc multipleExtensions.
              foldl (\<lambda>acc extensions. foldl (merge_extension pf) acc extensions)
                acc multipleExtensions)
       ([], []) allExtensions"

text \<open>
  \<open>scanExtensions\<close>, called at \<open>now\<close> with the log as it stands. The result is the promise the
  call returns and the log afterwards. The translations are awaited first; a rejection of
  theirs, or of the join of the two groups, rejects the call, and the callback with the merge
  does not run.
\<close>

definition scanExtensions ::
  "('tr, 'id) platform \<Rightarrow> IEnvironmentService \<Rightarrow> string list \<Rightarrow> nat \<Rightarrow> string \<Rightarrow>
   'id IExtensionDescription list promise \<times> string list"
where
  "scanExtensions pf env log now loc =
     (let translating =
            launch now (getTranslations_latency pf loc (userDataPath env))
              (getTranslations pf loc (userDataPath env))
      in case outcome translating of
           Inl e \<Rightarrow> (\<lparr>settled_at = settled_at translating, outcome = Inl e\<rparr>, log)
         | Inr tr \<Rightarrow>
             (let started = settled_at translating;
                  scans = Promise_all started
                            [scanBuiltin pf env loc tr started,
                             scanInstalled pf env loc tr started]
              in case outcome scans of
                   Inl e \<Rightarrow> (\<lparr>settled_at = settled_at scans, outcome = Inl e\<rparr>, log)
                 | Inr allExtensions \<Rightarrow>
                     (case merge_results pf allExtensions of
                        (uniqueExtensions, warnings) \<Rightarrow>
                          (\<lparr>settled_at = settled_at scans,
                            outcome = Inr (Map_values uniqueExtensions)\<rparr>,
                           log @ warnings))))"

section \<open>\<^verbatim>\<open>ExtensionEnvironmentChannel\<close>: the commands\<close>

definition getEnvironmentData ::
  "('tr, 'id) platform \<Rightarrow> IEnvironmentService \<Rightarrow> string \<Rightarrow> string list \<Rightarrow> nat \<Rightarrow> string \<Rightarrow>
   'id IRemoteAgentEnvironment promise \<times> string list"
where
  "getEnvironmentData pf env token log now loc =
     (case scanExtensions pf env log now loc of
        (scanned, log') \<Rightarrow>
          (case outcome scanned of
             Inl e \<Rightarrow> (\<lparr>settled_at = settled_at scanned, outcome = Inl e\<rparr>, log')
           | Inr found \<Rightarrow>
               (\<lparr>settled_at = settled_at scanned,
                 outcome = Inr
                   \<lparr>pid = process_pid pf,
                    connectionToken = token,
                    agent_appRoot = URI_file (appRoot env),
                    agent_appSettingsHome = appSettingsHome env,
                    settingsPath = machineSettingsHome env,
                    agent_logsPath = URI_file (logsPath env),
                    agent_extensionsPath = URI_file (extensionsPath env),
                    extensionHostLogsPath =
                      URI_file (path_join pf (logsPath env) ''extension-host''),
                    agent_globalStorageHome = URI_file (globalStorageHome env),
                    agent_userHome = URI_file (userHome env),
                    extensions = found,
                    os = OS pf\<rparr>\<rparr>,
                log')))"

typedecl IDiagnosticInfo

text \<open>\<open>getDiagnosticInfo\<close> has one statement, \<^verbatim>\<open>throw new Error("not implemented")\<close>.\<close>

definition getDiagnosticInfo :: "error + IDiagnosticInfo" where
  "getDiagnosticInfo = Inl (Error ''not implemented'')"

text \<open>The state of the channel's collaborators: the telemetry switch and the log.\<close>

record ChannelState =
  telemetry_enabled :: bool
  logged :: "string list"

definition disableTelemetry :: "ChannelState \<Rightarrow> ChannelState" where
  "disableTelemetry st = st\<lparr>telemetry_enabled := False\<rparr>"

record RemoteContext =
  remoteAuthority :: string

record CallArgs =
  language :: string

datatype 'id call_result =
    EnvironmentData "'id IRemoteAgentEnvironment"
  | DiagnosticInfo IDiagnosticInfo
  | Void

text \<open>
  \<open>call\<close> is \<^verbatim>\<open>async\<close>: whatever its body raises rejects the promise it returns. \<open>args\<close> is
  optional; reading \<^verbatim>\<open>args.language\<close> of a missing \<open>args\<close> raises a \<open>TypeError\<close>.
\<close>

definition ExtensionEnvironmentChannel_call ::
  "('tr, 'id) platform \<Rightarrow> IEnvironmentService \<Rightarrow> string \<Rightarrow> ChannelState \<Rightarrow> nat \<Rightarrow>
   RemoteContext \<Rightarrow> string \<Rightarrow> CallArgs option \<Rightarrow> 'id call_result promise \<times> ChannelState"
where
  \<open>ExtensionEnvironmentChannel_call pf env token st now context command args =
     (if command = ''getEnvironmentData'' then
        (case args of
           None \<Rightarrow> (\<lparr>settled_at = now, outcome = Inl TypeError\<rparr>, st)
         | Some a \<Rightarrow>
             (case getEnvironmentData pf env token (logged st) now (language a) of
                (p, log') \<Rightarrow>
                  (\<lparr>settled_at = settled_at p,
                    outcome =
                      (case outcome p of
                         Inl e \<Rightarrow> Inl e
                       | Inr d \<Rightarrow>
                           Inr (EnvironmentData
                                  (transformOutgoingURIs pf d
                                     (getUriTransformer pf (remoteAuthority context)))))\<rparr>,
                   st\<lparr>logged := log'\<rparr>)))
      else if command = ''getDiagnosticInfo'' then
        (case getDiagnosticInfo of
           Inl e \<Rightarrow> (\<lparr>settled_at = now, outcome = Inl e\<rparr>, st)
         | Inr d \<Rightarrow> (\<lparr>settled_at = now, outcome = Inr (DiagnosticInfo d)\<rparr>, st))
      else if command = ''disableTelemetry'' then
        (\<lparr>settled_at = now, outcome = Inr Void\<rparr>, disableTelemetry st)
      else
        (\<lparr>settled_at = now, outcome = Inl (Error (''Invalid call "'' @ command @ ''"''))\<rparr>, st))\<close>

text \<open>
  What the scans of a list of root paths yield, in the order of the list; for the builtin
  group and for the installed group, with the flags and the paths of \<open>scanBuiltin\<close> and
  \<open>scanInstalled\<close>.
\<close>

definition root_results ::
  "('tr, 'id) platform \<Rightarrow> string \<Rightarrow> 'tr \<Rightarrow> bool \<Rightarrow> bool \<Rightarrow> string list \<Rightarrow>
   (error + 'id IExtensionDescription list) list"
where
  "root_results pf loc tr builtin underDevelopment paths =
     map (\<lambda>folder. ExtensionScanner_scanExtensions pf
                      (scannerInput pf loc tr builtin underDevelopment folder))
       paths"

definition builtin_results ::
  "('tr, 'id) platform \<Rightarrow> IEnvironmentService \<Rightarrow> string \<Rightarrow> 'tr \<Rightarrow>
   (error + 'id IExtensionDescription list) list"
where
  "builtin_results pf env loc tr =
     root_results pf loc tr True False
       (builtinExtensionsPath env # extraBuiltinExtensionPaths env)"

definition installed_results ::
  "('tr, 'id) platform \<Rightarrow> IEnvironmentService \<Rightarrow> string \<Rightarrow> 'tr \<Rightarrow>
   (error + 'id IExtensionDescription list) list"
where
  "installed_results pf env loc tr =
     root_results pf loc tr False True
       (extensionsPath env # extraExtensionPaths env)"

text \<open>The merge of a flat sequence of descriptors, from the empty map and no warning.\<close>

definition merge_sequence ::
  "('tr, 'id) platform \<Rightarrow> 'id IExtensionDescription list \<Rightarrow>
   (string, 'id IExtensionDescription) Map \<times> string list"
where
  "merge_sequence pf ds = foldl (merge_extension pf) ([], []) ds"

text \<open>
  The invariant of the \<open>uniqueExtensions\<close> map during the merge: one entry per key, and every
  entry stored under the key of its descriptor.
\<close>

definition well_keyed ::
  "('tr, 'id) platform \<Rightarrow> (string, 'id IExtensionDescription) Map \<Rightarrow> bool" where
  "well_keyed pf m \<longleftrightarrow>
     distinct (Map_keys m) \<and> list_all (\<lambda>p. extension_key pf (snd p) = fst p) m"

text \<open>
  A configuration, a parser and the two factories to run the definitions on. The parser
  knows five texts: \<^verbatim>\<open>null\<close>, an empty object, and objects whose \<^verbatim>\<open>requestResourcePath\<close> is
  a number, an array and a path; any other text is not JSON to it.
\<close>

definition sample_environment :: IEnvironmentService where
  "sample_environment =
     \<lparr>appRoot = ''/opt/app'', userDataPath = ''/home/u/data'', logsPath = ''/home/u/logs'',
      extensionsPath = ''/home/u/ext'', builtinExtensionsPath = ''/opt/app/extensions'',
      extraExtensionPaths = [''/srv/ext''], extraBuiltinExtensionPaths = [''/srv/builtin''],
      globalStorageHome = ''/home/u/global'', userHome = ''/home/u'',
      appSettingsHome = URI_file ''/home/u/data/User'',
      machineSettingsHome = URI_file ''/home/u/data/Machine''\<rparr>"

definition sample_JSON_parse :: "string \<Rightarrow> error + json" where
  \<open>sample_JSON_parse s =
     (if s = ''null'' then Inr JNull
      else if s = ''{}'' then Inr (JObject [])
      else if s = ''{"requestResourcePath":5}''
        then Inr (JObject [(''requestResourcePath'', JNumber 5)])
      else if s = ''{"requestResourcePath":["/x"]}''
        then Inr (JObject [(''requestResourcePath'', JArray [JString ''/x''])])
      else if s = ''{"requestResourcePath":"/tmp/a.png"}''
        then Inr (JObject [(''requestResourcePath'', JString ''/tmp/a.png'')])
      else Inl SyntaxError)\<close>

text \<open>
  The two checks of the resource class that the samples need, with the messages of the class:
  a scheme may hold letters, digits and \<^verbatim>\<open>_ + . -\<close> only, so one with a space in it is
  refused; and a path that begins with two slashes needs an authority.
\<close>

definition UriError_scheme :: error where
  "UriError_scheme = Error ''[UriError]: Scheme contains illegal characters.''"

definition UriError_double_slash :: error where
  \<open>UriError_double_slash =
     Error (''[UriError]: If a URI does not contain an authority component, '' @
            ''then the path cannot begin with two slash characters ("//")'')\<close>

definition sample_URI_from :: "UriComponents \<Rightarrow> error + URI" where
  "sample_URI_from c =
     (if CHR '' '' \<in> set (scheme c) then Inl UriError_scheme
      else if authority c = [] \<and> prefix ''//'' (path c) then Inl UriError_double_slash
      else Inr (URI_from c))"

text \<open>
  \<^verbatim>\<open>URI.file\<close> on the two values of the parser that are not strings. It puts a slash before
  a value that does not begin with one: the number 5 becomes the path \<^verbatim>\<open>/5\<close>, and the array
  becomes \<^verbatim>\<open>//x\<close>, which the class refuses. The sample knows no other value.
\<close>

definition sample_URI_file_other :: "jsval \<Rightarrow> error + URI" where
  "sample_URI_file_other v =
     (if v = Value (JNumber 5) then Inr (URI_file ''/5'')
      else if v = Value (JArray [JString ''/x'']) then Inl UriError_double_slash
      else Inl TypeError)"

definition sample_resource :: "string \<Rightarrow> string \<Rightarrow> UriComponents" where
  "sample_resource p q =
     \<lparr>scheme = ''vscode-remote'', authority = ''host'', path = p, query = q, fragment = []\<rparr>"

text \<open>
  A platform to run the discovery on. Identifiers are strings and their key is the lower-case
  form; the local path of a file resource is the path it was built from. Four roots hold one
  extension each; the builtin \<^verbatim>\<open>pub.ext\<close> and the installed \<^verbatim>\<open>Pub.Ext\<close> share a key. The
  scans of the builtin roots take longer than those of the installed roots.
\<close>

definition ascii_lower :: "char \<Rightarrow> char" where
  "ascii_lower c =
     (if 65 \<le> (of_char c :: nat) \<and> (of_char c :: nat) \<le> 90
      then char_of ((of_char c :: nat) + 32) else c)"

definition toLowerCase :: "string \<Rightarrow> string" where
  "toLowerCase s = map ascii_lower s"

definition pub_ext_builtin :: "string IExtensionDescription" where
  "pub_ext_builtin =
     \<lparr>identifier = ''pub.ext'',
      extensionLocation = URI_file ''/opt/app/extensions/pub.ext'',
      version = ''1.0.0''\<rparr>"

definition git_builtin :: "string IExtensionDescription" where
  "git_builtin =
     \<lparr>identifier = ''vscode.git'',
      extensionLocation = URI_file ''/srv/builtin/git'',
      version = ''1.0.0''\<rparr>"

definition pub_ext_installed :: "string IExtensionDescription" where
  "pub_ext_installed =
     \<lparr>identifier = ''Pub.Ext'',
      extensionLocation = URI_file ''/home/u/ext/pub.ext-2.0.0'',
      version = ''2.0.0''\<rparr>"

definition theme_installed :: "string IExtensionDescription" where
  "theme_installed =
     \<lparr>identifier = ''me.theme'',
      extensionLocation = URI_file ''/srv/ext/me.theme-0.1.0'',
      version = ''0.1.0''\<rparr>"

definition sample_scan ::
  "unit ExtensionScannerInput \<Rightarrow> error + string IExtensionDescription list" where
  "sample_scan input =
     (if absoluteFolderPath input = ''/opt/app/extensions'' then Inr [pub_ext_builtin]
      else if absoluteFolderPath input = ''/srv/builtin'' then Inr [git_builtin]
      else if absoluteFolderPath input = ''/home/u/ext'' then Inr [pub_ext_installed]
      else if absoluteFolderPath input = ''/srv/ext'' then Inr [theme_installed]
      else Inr [])"

definition sample_fsPath :: "URI \<Rightarrow> string" where
  "sample_fsPath u = (case u of URI_file p \<Rightarrow> p | URI_from c \<Rightarrow> path c)"

definition sample_platform :: "(unit, string) platform" where
  "sample_platform =
     \<lparr>pkg_version = ''1.39.2'',
      product_commit = None,
      VSCODE_DEV = None,
      process_pid = 4242,
      OS = Linux,
      path_join = (\<lambda>a b. a @ ''/'' @ b),
      getTranslations = (\<lambda>loc dir. Inr ()),
      getTranslations_latency = (\<lambda>loc dir. 2),
      ExtensionScanner_scanExtensions = sample_scan,
      ExtensionScanner_latency = (\<lambda>input. if isBuiltin input then 9 else 1),
      toKey = toLowerCase,
      fsPath = sample_fsPath,
      getUriTransformer = (\<lambda>remote u. u),
      transformOutgoingURIs = (\<lambda>d t. d)\<rparr>"



section \<open>Properties of the path remapping\<close>

lemma indexOf_from_range: "indexOf_from i s pat = - 1 \<or> int i \<le> indexOf_from i s pat"
  by (induction i s pat rule: indexOf_from.induct) auto

lemma indexOf_from_here: "indexOf_from i s pat = int i \<longleftrightarrow> prefix pat s"
proof (cases s)
  case Nil
  then show ?thesis by auto
next
  case (Cons c cs)
  have "indexOf_from (Suc i) cs pat \<noteq> int i"
    using indexOf_from_range [of "Suc i" cs pat] by auto
  with Cons show ?thesis by auto
qed

lemma indexOf_0_iff: "indexOf s pat = 0 \<longleftrightarrow> prefix pat s"
  using indexOf_from_here [of 0 s pat] by (simp add: indexOf_def)

lemma transform_static_rule:
  "prefix ''/static'' (path r) \<Longrightarrow>
   transform J F U env r = Inr (URI_file (appRoot env @ drop (length ''/static'') (path r)))"
  by (simp add: transform_def indexOf_0_iff replace_leading_static_def)






text \<open>
  C5. A resource whose path begins with the static-asset prefix \<^verbatim>\<open>/static\<close> is remapped to
  the local file whose path is the application root followed by the rest of the path.
\<close>

theorem transform_static_prefix:
  "path resource = ''/static'' @ rest \<Longrightarrow>
   transform JSON_parse URI_file_other URI_from_factory env resource =
     Inr (URI_file (appRoot env @ rest))"
  using transform_static_rule [of resource JSON_parse URI_file_other URI_from_factory env]
  by simp

theorem transform_static_prefix_witness:
  "path (sample_resource ''/static/foo/bar'' []) = ''/static'' @ ''/foo/bar'' \<and>
   appRoot sample_environment = ''/opt/app'' \<and>
   transform sample_JSON_parse sample_URI_file_other sample_URI_from sample_environment
     (sample_resource ''/static/foo/bar'' []) =
     Inr (URI_file ''/opt/app/foo/bar'')"
proof -
  have h: "path (sample_resource ''/static/foo/bar'' []) = ''/static'' @ ''/foo/bar''"
    by (simp add: sample_resource_def)
  show ?thesis
    using h transform_static_prefix [OF h, of sample_JSON_parse sample_URI_file_other
        sample_URI_from sample_environment]
    by (simp add: sample_environment_def)
qed

text \<open>
  C10. The static-asset rule tests only that the path starts with the seven characters
  \<^verbatim>\<open>/static\<close>: whatever follows them, a slash or not, is appended to the application root.
  A resource with path \<^verbatim>\<open>/staticfoo\<close> becomes the local file \<^verbatim>\<open><appRoot>foo\<close> and is not
  returned unchanged.
\<close>

theorem transform_static_bare_prefix:
  "transform JSON_parse URI_file_other URI_from_factory env
     (resource\<lparr>path := ''/static'' @ rest\<rparr>) =
     Inr (URI_file (appRoot env @ rest)) \<and>
   transform JSON_parse URI_file_other URI_from_factory env
     (resource\<lparr>path := ''/staticfoo''\<rparr>) =
     Inr (URI_file (appRoot env @ ''foo'')) \<and>
   transform JSON_parse URI_file_other URI_from_factory env
     (resource\<lparr>path := ''/staticfoo''\<rparr>) \<noteq>
     Inr (URI_from (resource\<lparr>path := ''/staticfoo''\<rparr>))"
proof -
  have "transform JSON_parse URI_file_other URI_from_factory env
      (resource\<lparr>path := ''/static'' @ r\<rparr>) = Inr (URI_file (appRoot env @ r))" for r
    using transform_static_rule [of "resource\<lparr>path := ''/static'' @ r\<rparr>"] by simp
  from this [of rest] this [of "''foo''"] show ?thesis by simp
qed

theorem transform_static_bare_prefix_witness:
  "transform sample_JSON_parse sample_URI_file_other sample_URI_from sample_environment
     (sample_resource ''/staticfoo'' []) = Inr (URI_file ''/opt/appfoo'')"
  using transform_static_bare_prefix [where JSON_parse = sample_JSON_parse
      and URI_file_other = sample_URI_file_other and URI_from_factory = sample_URI_from
      and env = sample_environment
      and resource = "sample_resource ''/staticfoo'' []" and rest = "''foo''"]
  by (simp add: sample_resource_def sample_environment_def)

section \<open>Properties of the watch sessions\<close>

lemma Map_get_set: "Map_get (Map_set k v m) k' = (if k' = k then Some v else Map_get m k')"
  unfolding Map_get_def by (induction m) auto

lemma Map_get_delete: "Map_get (Map_delete k m) k' = (if k' = k then None else Map_get m k')"
  unfolding Map_get_def Map_delete_def by (induction m) auto

lemma Map_keys_set:
  "Map_keys (Map_set k v m) = (if k \<in> set (Map_keys m) then Map_keys m else Map_keys m @ [k])"
  unfolding Map_keys_def by (induction m) force+

lemma Map_keys_set_distinct: "distinct (Map_keys m) \<Longrightarrow> distinct (Map_keys (Map_set k v m))"
  by (simp add: Map_keys_set)

lemma Map_values_set_subset: "set (Map_values (Map_set k v m)) \<subseteq> insert v (set (Map_values m))"
proof (induction m)
  case Nil
  show ?case by (simp add: Map_values_def)
next
  case (Cons p m)
  obtain k' v' where p: "p = (k', v')" by (cases p)
  from Cons show ?case unfolding p Map_values_def by (cases "k' = k") auto
qed

lemma Map_values_set_distinct:
  "distinct (Map_values m) \<Longrightarrow> v \<notin> set (Map_values m) \<Longrightarrow> distinct (Map_values (Map_set k v m))"
proof (induction m)
  case Nil
  then show ?case by (simp add: Map_values_def)
next
  case (Cons p m)
  obtain k' v' where p: "p = (k', v')" by (cases p)
  have sub: "set (Map_values (Map_set k v m)) \<subseteq> insert v (set (Map_values m))"
    by (rule Map_values_set_subset)
  have "distinct (Map_values (Map_set k v m))"
    using Cons by (simp add: Map_values_def)
  moreover have "v' \<notin> set (Map_values (Map_set k v m))"
    using sub Cons.prems p by (auto simp: Map_values_def)
  ultimately show ?case
    using Cons.prems p by (simp add: Map_values_def)
qed

lemma Map_values_set_displaced:
  "distinct (Map_keys m) \<Longrightarrow> distinct (Map_values m) \<Longrightarrow> Map_get m k = Some old \<Longrightarrow> v \<noteq> old \<Longrightarrow>
   old \<notin> set (Map_values (Map_set k v m))"
proof (induction m)
  case Nil
  then show ?case by (simp add: Map_get_def)
next
  case (Cons p m)
  obtain k' v' where p: "p = (k', v')" by (cases p)
  show ?case
  proof (cases "k' = k")
    case True
    with Cons.prems p show ?thesis by (auto simp: Map_get_def Map_values_def Map_keys_def)
  next
    case False
    with Cons.prems p have g: "Map_get m k = Some old" by (simp add: Map_get_def)
    then have "(k, old) \<in> set m" by (simp add: Map_get_def map_of_SomeD)
    then have "old \<in> set (Map_values m)" by (force simp: Map_values_def)
    with Cons.prems p have "v' \<noteq> old" by (auto simp: Map_values_def)
    moreover have "old \<notin> set (Map_values (Map_set k v m))"
      using Cons.IH Cons.prems g p by (simp add: Map_values_def Map_keys_def)
    ultimately show ?thesis using p False by (simp add: Map_values_def)
  qed
qed

lemma Map_get_in_values: "Map_get m k = Some v \<Longrightarrow> v \<in> set (Map_values m)"
  unfolding Map_get_def Map_values_def by (force dest: map_of_SomeD)

lemma Map_values_delete_subset: "set (Map_values (Map_delete k m)) \<subseteq> set (Map_values m)"
  unfolding Map_values_def Map_delete_def by auto

lemma Map_values_delete_removed:
  "distinct (Map_keys m) \<Longrightarrow> distinct (Map_values m) \<Longrightarrow> Map_get m k = Some v \<Longrightarrow>
   v \<notin> set (Map_values (Map_delete k m))"
proof (induction m)
  case Nil
  then show ?case by (simp add: Map_get_def)
next
  case (Cons p m)
  obtain k' v' where p: "p = (k', v')" by (cases p)
  show ?case
  proof (cases "k' = k")
    case True
    with Cons.prems p have "v' = v" by (simp add: Map_get_def)
    moreover have "set (Map_values (Map_delete k m)) \<subseteq> set (Map_values m)"
      by (rule Map_values_delete_subset)
    ultimately show ?thesis using Cons.prems p True
      by (auto simp: Map_values_def Map_delete_def Map_keys_def)
  next
    case False
    with Cons.prems p have g: "Map_get m k = Some v" by (simp add: Map_get_def)
    then have "v \<in> set (Map_values m)" by (rule Map_get_in_values)
    with Cons.prems p have "v' \<noteq> v" by (auto simp: Map_values_def)
    moreover have "v \<notin> set (Map_values (Map_delete k m))"
      using Cons.IH Cons.prems g p by (simp add: Map_values_def Map_keys_def)
    ultimately show ?thesis using p False by (simp add: Map_values_def Map_delete_def)
  qed
qed

lemma Map_delete_distinct:
  "distinct (Map_keys m) \<Longrightarrow> distinct (Map_keys (Map_delete k m))"
  "distinct (Map_values m) \<Longrightarrow> distinct (Map_values (Map_delete k m))"
  unfolding Map_keys_def Map_values_def Map_delete_def by (simp_all add: distinct_map_filter)


lemma Watcher_inv_new: "Watcher_inv Watcher_new"
  by (simp add: Watcher_inv_def Watcher_new_def Map_keys_def Map_values_def)

lemma Watcher_inv_watch:
  assumes "Watcher_inv w"
  shows "Watcher_inv (Watcher_watch w req resource opts)"
proof -
  let ?h = "length (opened w)"
  let ?m = "Map_set req ?h (watches w)"
  from assms have k: "distinct (Map_keys (watches w))"
    and d: "distinct (Map_values (watches w) @ released w)"
    and b: "\<forall>h \<in> set (Map_values (watches w) @ released w). h < ?h"
    by (simp_all add: Watcher_inv_def list_all_iff)
  have sub: "set (Map_values ?m) \<subseteq> insert ?h (set (Map_values (watches w)))"
    by (rule Map_values_set_subset)
  have fresh: "?h \<notin> set (Map_values (watches w) @ released w)"
    using b by auto
  have "distinct (Map_keys ?m)"
    using k by (rule Map_keys_set_distinct)
  moreover have "distinct (Map_values ?m)"
    using d fresh by (intro Map_values_set_distinct) auto
  moreover have "set (Map_values ?m) \<inter> set (released w) = {}"
    using sub d fresh by auto
  moreover have "\<forall>h \<in> set (Map_values ?m @ released w). h < Suc ?h"
    using sub b by (auto simp: less_Suc_eq)
  ultimately show ?thesis
    using d by (simp add: Watcher_inv_def Watcher_watch_def DiskFileSystemProvider_watch_def
        list_all_iff)
qed

lemma Watcher_inv_unwatch:
  assumes "Watcher_inv w" and "Watcher_unwatch w req = Inr w'"
  shows "Watcher_inv w'"
proof -
  from assms(2) obtain h where g: "Map_get (watches w) req = Some h"
    and w': "w' = w\<lparr>released := released w @ [h], watches := Map_delete req (watches w)\<rparr>"
    by (auto simp: Watcher_unwatch_def split: option.splits)
  let ?m = "Map_delete req (watches w)"
  from assms(1) have k: "distinct (Map_keys (watches w))"
    and d: "distinct (Map_values (watches w) @ released w)"
    and b: "\<forall>h \<in> set (Map_values (watches w) @ released w). h < length (opened w)"
    by (simp_all add: Watcher_inv_def list_all_iff)
  have hv: "h \<in> set (Map_values (watches w))"
    using g by (rule Map_get_in_values)
  have sub: "set (Map_values ?m) \<subseteq> set (Map_values (watches w))"
    by (rule Map_values_delete_subset)
  have gone: "h \<notin> set (Map_values ?m)"
    using k d g by (intro Map_values_delete_removed) auto
  have "distinct (Map_keys ?m)" and "distinct (Map_values ?m)"
    using k d by (simp_all add: Map_delete_distinct)
  moreover have "h \<notin> set (released w)"
    using d hv by auto
  moreover have "set (Map_values ?m) \<inter> set (released w) = {}"
    using sub d by auto
  moreover have "\<forall>x \<in> set (Map_values ?m @ released w @ [h]). x < length (opened w)"
    using sub b hv by auto
  ultimately show ?thesis
    using d gone by (simp add: w' Watcher_inv_def list_all_iff)
qed

lemma Watcher_inv_dispose:
  assumes "Watcher_inv w"
  shows "Watcher_inv (Watcher_dispose w)"
  using assms by (auto simp: Watcher_inv_def Watcher_dispose_def Map_keys_def Map_values_def)

lemma Watcher_inv_step: "Watcher_inv w \<Longrightarrow> Watcher_inv (Watcher_step w c)"
  by (cases c)
    (auto simp: Watcher_inv_watch Watcher_inv_dispose split: sum.splits
      intro: Watcher_inv_unwatch)

lemma Watcher_inv_run: "Watcher_inv w \<Longrightarrow> Watcher_inv (Watcher_run w calls)"
  unfolding Watcher_run_def
  by (induction calls arbitrary: w) (simp_all add: Watcher_inv_step)

lemma Watcher_inv_reachable: "Watcher_inv (Watcher_run Watcher_new calls)"
  by (simp add: Watcher_inv_run Watcher_inv_new)

lemma dropped_step:
  assumes "dropped w h"
  shows "dropped (Watcher_step w c) h \<and> 
    count_list (released (Watcher_step w c)) h = count_list (released w) h"
proof (cases c)
  case (Call_watch req resource opts)
  have "set (Map_values (Map_set req (length (opened w)) (watches w)))
      \<subseteq> insert (length (opened w)) (set (Map_values (watches w)))"
    by (rule Map_values_set_subset)
  with assms show ?thesis
    by (auto simp: Call_watch dropped_def Watcher_watch_def DiskFileSystemProvider_watch_def)
next
  case (Call_unwatch req)
  show ?thesis
  proof (cases "Map_get (watches w) req")
    case None
    with assms show ?thesis by (simp add: Call_unwatch Watcher_unwatch_def)
  next
    case (Some h')
    then have "h' \<in> set (Map_values (watches w))" by (rule Map_get_in_values)
    with assms have "h' \<noteq> h" by (auto simp: dropped_def)
    moreover have "set (Map_values (Map_delete req (watches w))) \<subseteq> set (Map_values (watches w))"
      by (rule Map_values_delete_subset)
    ultimately show ?thesis
      using assms Some by (auto simp: Call_unwatch Watcher_unwatch_def dropped_def)
  qed
next
  case Call_dispose
  with assms show ?thesis
    by (simp add: dropped_def Watcher_dispose_def Map_values_def count_list_0_iff)
qed

lemma dropped_run:
  "dropped w h \<Longrightarrow> count_list (released (Watcher_run w calls)) h = count_list (released w) h"
  unfolding Watcher_run_def
proof (induction calls arbitrary: w)
  case Nil
  show ?case by simp
next
  case (Cons c calls)
  from dropped_step [OF Cons.prems, of c] Cons.IH [of "Watcher_step w c"]
  show ?case by simp
qed

text \<open>
  C7. In every state a session can reach, \<^verbatim>\<open>_watch(req, resource, opts)\<close> followed by
  \<^verbatim>\<open>unwatch(req)\<close> succeeds and leaves the map without an entry for \<open>req\<close>; the two calls
  make exactly one \<^verbatim>\<open>dispose()\<close> call, on the subscription the \<^verbatim>\<open>_watch\<close> opened, and
  whatever the session does later that subscription stays released exactly once. This holds
  whether or not \<open>req\<close> was present before.
\<close>

theorem watch_then_unwatch_releases_once:
  "\<exists>w2. Watcher_unwatch
          (Watcher_watch (Watcher_run Watcher_new history) req resource opts) req = Inr w2 \<and>
        Map_get (watches w2) req = None \<and>
        released w2 =
          released (Watcher_run Watcher_new history) @
            [fst (DiskFileSystemProvider_watch (Watcher_run Watcher_new history) resource opts)] \<and>
        (\<forall>later. count_list (released (Watcher_run w2 later))
           (fst (DiskFileSystemProvider_watch (Watcher_run Watcher_new history) resource opts)) = 1)"
proof -
  let ?w = "Watcher_run Watcher_new history"
  let ?h = "length (opened ?w)"
  let ?w1 = "Watcher_watch ?w req resource opts"
  let ?w2 = "?w1\<lparr>released := released ?w1 @ [?h], watches := Map_delete req (watches ?w1)\<rparr>"
  have inv: "Watcher_inv ?w" by (rule Watcher_inv_reachable)
  then have inv1: "Watcher_inv ?w1" by (rule Watcher_inv_watch)
  have g: "Map_get (watches ?w1) req = Some ?h"
    by (simp add: Watcher_watch_def DiskFileSystemProvider_watch_def Map_get_set)
  then have u: "Watcher_unwatch ?w1 req = Inr ?w2"
    by (simp add: Watcher_unwatch_def)
  have r1: "released ?w1 = released ?w" and o1: "opened ?w1 = opened ?w @ [(resource, opts)]"
    by (simp_all add: Watcher_watch_def DiskFileSystemProvider_watch_def)
  have "\<forall>x \<in> set (released ?w). x < ?h"
    using inv by (simp add: Watcher_inv_def list_all_iff)
  then have fresh: "?h \<notin> set (released ?w)" by auto
  have "?h \<notin> set (Map_values (Map_delete req (watches ?w1)))"
    using inv1 g by (intro Map_values_delete_removed) (auto simp: Watcher_inv_def)
  then have "dropped ?w2 ?h" by (simp add: dropped_def o1)
  then have "count_list (released (Watcher_run ?w2 later)) ?h = count_list (released ?w2) ?h"
    for later by (rule dropped_run)
  moreover have "count_list (released ?w2) ?h = 1"
    using fresh by (simp add: r1 count_list_0_iff)
  ultimately have "\<forall>later. count_list (released (Watcher_run ?w2 later)) ?h = 1" by simp
  moreover have "Map_get (watches ?w2) req = None" by (simp add: Map_get_delete)
  moreover have "released ?w2 = released ?w @ [?h]" by (simp add: r1)
  ultimately show ?thesis
    using u by (simp add: DiskFileSystemProvider_watch_def)
qed

theorem watch_then_unwatch_releases_once_witness:
  "\<exists>w2. Watcher_unwatch
          (Watcher_watch (Watcher_run Watcher_new []) 1 (URI_file ''/tmp/a'')
             \<lparr>recursive = True, excludes = []\<rparr>) 1 = Inr w2 \<and>
        Map_get (watches w2) 1 = None \<and>
        released w2 = [0] \<and>
        count_list (released (Watcher_run w2 [Call_unwatch 1, Call_dispose])) 0 = 1"
proof -
  have "released (Watcher_run Watcher_new []) = []"
    and "fst (DiskFileSystemProvider_watch (Watcher_run Watcher_new []) u opts) = 0" for u opts
    by (simp_all add: Watcher_run_def Watcher_new_def DiskFileSystemProvider_watch_def)
  with watch_then_unwatch_releases_once [of "[]" 1 "URI_file ''/tmp/a''"
      "\<lparr>recursive = True, excludes = []\<rparr>"]
  show ?thesis by auto
qed

text \<open>
  C9. \<^verbatim>\<open>_watch\<close> on a request id that is present replaces the stored handle by the new
  one and makes no \<^verbatim>\<open>dispose()\<close> call. The previous handle is then in no entry of the map,
  and no later sequence of \<^verbatim>\<open>_watch\<close>, \<^verbatim>\<open>unwatch\<close> and \<^verbatim>\<open>dispose\<close> calls on the session
  releases it.
\<close>

theorem rewatch_leaks_previous_handle:
  assumes "Map_get (watches (Watcher_run Watcher_new history)) req = Some old"
  shows "released (Watcher_watch (Watcher_run Watcher_new history) req resource opts) =
           released (Watcher_run Watcher_new history) \<and>
         Map_get (watches (Watcher_watch (Watcher_run Watcher_new history) req resource opts)) req
           = Some (fst (DiskFileSystemProvider_watch (Watcher_run Watcher_new history) resource opts)) \<and>
         fst (DiskFileSystemProvider_watch (Watcher_run Watcher_new history) resource opts) \<noteq> old \<and>
         old \<notin> set (Map_values
           (watches (Watcher_watch (Watcher_run Watcher_new history) req resource opts))) \<and>
         (\<forall>later. old \<notin> set (released (Watcher_run
           (Watcher_watch (Watcher_run Watcher_new history) req resource opts) later)))"
proof -
  let ?w = "Watcher_run Watcher_new history"
  let ?h = "length (opened ?w)"
  let ?w1 = "Watcher_watch ?w req resource opts"
  have inv: "Watcher_inv ?w" by (rule Watcher_inv_reachable)
  have ov: "old \<in> set (Map_values (watches ?w))"
    using assms by (rule Map_get_in_values)
  have b: "\<forall>x \<in> set (Map_values (watches ?w) @ released ?w). x < ?h"
    using inv by (simp add: Watcher_inv_def list_all_iff)
  with ov have lt: "old < ?h" by auto
  have nr: "old \<notin> set (released ?w)"
    using inv ov by (auto simp: Watcher_inv_def)
  have r1: "released ?w1 = released ?w" and o1: "opened ?w1 = opened ?w @ [(resource, opts)]"
    and m1: "watches ?w1 = Map_set req ?h (watches ?w)"
    by (simp_all add: Watcher_watch_def DiskFileSystemProvider_watch_def)
  have out: "old \<notin> set (Map_values (watches ?w1))"
    unfolding m1 using inv assms lt
    by (intro Map_values_set_displaced) (auto simp: Watcher_inv_def)
  then have "dropped ?w1 old" using lt by (simp add: dropped_def o1)
  then have "count_list (released (Watcher_run ?w1 later)) old = count_list (released ?w1) old"
    for later by (rule dropped_run)
  then have "\<forall>later. old \<notin> set (released (Watcher_run ?w1 later))"
    using nr by (simp add: r1 count_list_0_iff)
  moreover have "Map_get (watches ?w1) req = Some ?h" by (simp add: m1 Map_get_set)
  ultimately show ?thesis
    using r1 out lt by (simp add: DiskFileSystemProvider_watch_def)
qed

theorem rewatch_leaks_previous_handle_witness:
  "Map_get (watches (Watcher_run Watcher_new
      [Call_watch 1 (URI_file ''/tmp/a'') \<lparr>recursive = True, excludes = []\<rparr>])) 1 = Some 0 \<and>
   0 \<notin> set (released (Watcher_run
      (Watcher_watch
        (Watcher_run Watcher_new
          [Call_watch 1 (URI_file ''/tmp/a'') \<lparr>recursive = True, excludes = []\<rparr>])
        1 (URI_file ''/tmp/b'') \<lparr>recursive = False, excludes = []\<rparr>)
      [Call_unwatch 1, Call_dispose]))"
proof -
  have h: "Map_get (watches (Watcher_run Watcher_new
      [Call_watch 1 (URI_file ''/tmp/a'') \<lparr>recursive = True, excludes = []\<rparr>])) 1 = Some 0"
    by (simp add: Watcher_run_def Watcher_new_def Watcher_watch_def
        DiskFileSystemProvider_watch_def Map_get_def)
  from h rewatch_leaks_previous_handle [OF h, of "URI_file ''/tmp/b''"
      "\<lparr>recursive = False, excludes = []\<rparr>"]
  show ?thesis by blast
qed

section \<open>Properties of the watch commands\<close>

text \<open>
  C6 as stated fails in its second half. In a channel where the session has a \<open>Watcher\<close>
  and the request id has no subscription, \<^verbatim>\<open>unwatch\<close> rejects, but with the \<open>TypeError\<close> of
  calling \<^verbatim>\<open>dispose\<close> of \<^verbatim>\<open>undefined\<close>, where the claim has the failure be a \<open>NotFound\<close>
  error.
\<close>

theorem unwatch_NotFound_counterexample:
  "Map_get (watchers (onFirstListenerAdd FileProviderChannel_new ''s1'')) ''s1'' =
     Some Watcher_new \<and>
   Map_get (watches Watcher_new) 7 = None \<and>
   FileProviderChannel_unwatch (onFirstListenerAdd FileProviderChannel_new ''s1'') ''s1'' 7 =
     Inl TypeError \<and>
   FileProviderChannel_unwatch (onFirstListenerAdd FileProviderChannel_new ''s1'') ''s1'' 7 \<noteq>
     Inl NotFound"
  by (simp add: FileProviderChannel_unwatch_def Watcher_unwatch_def onFirstListenerAdd_def
      FileProviderChannel_new_def Watcher_new_def Map_get_def)

text \<open>
  C6, as the code has it. The \<^verbatim>\<open>unwatch\<close> command rejects whenever the channel has no
  \<open>Watcher\<close> for the session id, or has one whose map holds no subscription under the
  request id, and in no other case. The rejection is always the \<open>TypeError\<close> that the runtime
  raises for a method call on \<^verbatim>\<open>undefined\<close>, and never a \<open>NotFound\<close> error: the code has no
  check of its own for the missing entry.
\<close>

theorem unwatch_rejects_with_TypeError:
  "(Map_get (watchers ch) session = None \<or>
    (\<exists>w. Map_get (watchers ch) session = Some w \<and> Map_get (watches w) req = None) \<longrightarrow>
      FileProviderChannel_unwatch ch session req = Inl TypeError) \<and>
   (FileProviderChannel_unwatch ch session req = Inl e \<longrightarrow>
      e = TypeError \<and>
      (Map_get (watchers ch) session = None \<or>
       (\<exists>w. Map_get (watchers ch) session = Some w \<and> Map_get (watches w) req = None))) \<and>
   FileProviderChannel_unwatch ch session req \<noteq> Inl NotFound"
  by (auto simp: FileProviderChannel_unwatch_def Watcher_unwatch_def
      split: option.splits sum.splits)

theorem unwatch_rejects_with_TypeError_witness:
  "Map_get (watchers FileProviderChannel_new) ''s1'' = None \<and>
   FileProviderChannel_unwatch FileProviderChannel_new ''s1'' 7 = Inl TypeError \<and>
   Map_get (watchers (onFirstListenerAdd FileProviderChannel_new ''s1'')) ''s1'' = Some Watcher_new \<and>
   Map_get (watches Watcher_new) 7 = None \<and>
   FileProviderChannel_unwatch (onFirstListenerAdd FileProviderChannel_new ''s1'') ''s1'' 7 =
     Inl TypeError"
proof -
  have a: "Map_get (watchers FileProviderChannel_new) ''s1'' = None"
    by (simp add: FileProviderChannel_new_def Map_get_def)
  have b: "Map_get (watchers (onFirstListenerAdd FileProviderChannel_new ''s1'')) ''s1'' =
      Some Watcher_new"
    by (simp add: onFirstListenerAdd_def FileProviderChannel_new_def Map_get_def)
  have c: "Map_get (watches Watcher_new) 7 = None"
    by (simp add: Watcher_new_def Map_get_def)
  have "FileProviderChannel_unwatch FileProviderChannel_new ''s1'' 7 = Inl TypeError"
    using a unwatch_rejects_with_TypeError [of FileProviderChannel_new "''s1''" 7] by simp
  moreover have "FileProviderChannel_unwatch
      (onFirstListenerAdd FileProviderChannel_new ''s1'') ''s1'' 7 = Inl TypeError"
    using b c unwatch_rejects_with_TypeError
      [of "onFirstListenerAdd FileProviderChannel_new ''s1''" "''s1''" 7]
    by simp
  ultimately show ?thesis using a b c by simp
qed

section \<open>Properties of promises and of the scan groups\<close>

lemma foldl_concat: "foldl f a (concat xss) = foldl (\<lambda>a xs. foldl f a xs) a xss"
  by (induction xss arbitrary: a) simp_all

lemma merge_results_flat: "merge_results pf allExtensions = merge_sequence pf (concat (concat allExtensions))"
  by (simp add: merge_results_def merge_sequence_def foldl_concat)




lemma all_fulfilled:
  "map outcome ps = map Inr vs \<Longrightarrow> rejections ps = [] \<and> fulfilled ps = vs"
  by (induction ps arbitrary: vs) auto


lemma Promise_all_resolved:
  "map outcome ps = map Inr vs \<Longrightarrow>
   Promise_all now ps = \<lparr>settled_at = foldr max (map settled_at ps) now, outcome = Inr vs\<rparr>"
  by (simp add: Promise_all_def all_fulfilled)


lemma scanMultiple_resolved:
  assumes "root_results pf loc tr b d paths = map Inr vs"
  shows "scanMultiple pf loc tr now b d paths =
    \<lparr>settled_at =
        foldr max
          (map (\<lambda>folder. now + ExtensionScanner_latency pf (scannerInput pf loc tr b d folder))
             paths) now,
     outcome = Inr vs\<rparr>"
proof -
  let ?ps = "map (\<lambda>folder. launch now
      (ExtensionScanner_latency pf (scannerInput pf loc tr b d folder))
      (ExtensionScanner_scanExtensions pf (scannerInput pf loc tr b d folder))) paths"
  have "map outcome ?ps = map Inr vs"
    using assms by (simp add: root_results_def launch_def comp_def)
  from Promise_all_resolved [OF this, of now] show ?thesis
    by (simp add: scanMultiple_def launch_def comp_def)
qed





lemma platform_latency_irrelevant:
  "scannerInput (pf\<lparr>getTranslations_latency := tlat, ExtensionScanner_latency := slat\<rparr>) = scannerInput pf"
  "merge_extension (pf\<lparr>getTranslations_latency := tlat, ExtensionScanner_latency := slat\<rparr>) = merge_extension pf"
  "root_results (pf\<lparr>getTranslations_latency := tlat, ExtensionScanner_latency := slat\<rparr>) = root_results pf"
  by (simp_all add: fun_eq_iff scannerInput_def merge_extension_def extension_key_def
      root_results_def Let_def split: option.splits)

lemma scanExtensions_resolved:
  assumes tr: "getTranslations pf loc (userDataPath env) = Inr tr"
    and bs: "builtin_results pf env loc tr = map Inr bss"
    and ins: "installed_results pf env loc tr = map Inr iss"
  shows "outcome (fst (scanExtensions pf env log now loc)) =
           Inr (Map_values (fst (merge_sequence pf (concat bss @ concat iss))))"
    and "snd (scanExtensions pf env log now loc) =
           log @ snd (merge_sequence pf (concat bss @ concat iss))"
    and "settled_at (fst (scanExtensions pf env log now loc)) =
           foldr max
             [settled_at (scanBuiltin pf env loc tr
                (now + getTranslations_latency pf loc (userDataPath env))),
              settled_at (scanInstalled pf env loc tr
                (now + getTranslations_latency pf loc (userDataPath env)))]
             (now + getTranslations_latency pf loc (userDataPath env))"
proof -
  let ?started = "now + getTranslations_latency pf loc (userDataPath env)"
  let ?B = "scanBuiltin pf env loc tr ?started"
  let ?I = "scanInstalled pf env loc tr ?started"
  have B: "outcome ?B = Inr bss"
    using scanMultiple_resolved [OF bs [unfolded builtin_results_def], of ?started]
    by (simp add: scanBuiltin_def)
  have I: "outcome ?I = Inr iss"
    using scanMultiple_resolved [OF ins [unfolded installed_results_def], of ?started]
    by (simp add: scanInstalled_def)
  have "map outcome [?B, ?I] = map Inr [bss, iss]" using B I by simp
  from Promise_all_resolved [OF this, of ?started]
  have all: "Promise_all ?started [?B, ?I] =
      \<lparr>settled_at = foldr max [settled_at ?B, settled_at ?I] ?started, outcome = Inr [bss, iss]\<rparr>"
    by simp
  have m: "merge_results pf [bss, iss] = merge_sequence pf (concat bss @ concat iss)"
    by (simp add: merge_results_flat)
  show "outcome (fst (scanExtensions pf env log now loc)) =
           Inr (Map_values (fst (merge_sequence pf (concat bss @ concat iss))))"
    and "snd (scanExtensions pf env log now loc) =
           log @ snd (merge_sequence pf (concat bss @ concat iss))"
    and "settled_at (fst (scanExtensions pf env log now loc)) =
           foldr max [settled_at ?B, settled_at ?I] ?started"
    using tr all m
    by (simp_all add: scanExtensions_def launch_def Let_def split: prod.splits)
qed


lemma foldr_max_bound:
  "x \<in> set xs \<Longrightarrow> x \<le> foldr max xs (n::nat)"
  by (induction xs) auto

lemma scanMultiple_settles_after_each:
  assumes "root_results pf loc tr b d paths = map Inr vs" and "folder \<in> set paths"
  shows "now + ExtensionScanner_latency pf (scannerInput pf loc tr b d folder)
           \<le> settled_at (scanMultiple pf loc tr now b d paths)"
proof -
  have "now + ExtensionScanner_latency pf (scannerInput pf loc tr b d folder)
      \<in> set (map (\<lambda>f. now + ExtensionScanner_latency pf (scannerInput pf loc tr b d f)) paths)"
    using assms(2) by simp
  from foldr_max_bound [OF this, of now] show ?thesis
    by (simp add: scanMultiple_resolved [OF assms(1)])
qed


section \<open>Properties of the merge\<close>

lemma merge_extension_fst:
  "fst (merge_extension pf acc x) = Map_set (extension_key pf x) x (fst acc)"
  by (cases acc) (simp add: merge_extension_def Let_def)

lemma merge_extension_snd:
  "snd (merge_extension pf acc x) =
     (case Map_get (fst acc) (extension_key pf x) of
        None \<Rightarrow> snd acc
      | Some previous \<Rightarrow>
          snd acc @ [overridden_warning (fsPath pf (extensionLocation previous))
                       (fsPath pf (extensionLocation x))])"
  by (cases acc) (simp add: merge_extension_def Let_def Map_has_def Map_get_def split: option.splits)

lemma merge_get:
  "Map_get (fst (foldl (merge_extension pf) acc ds)) k =
     (if filter (\<lambda>d. extension_key pf d = k) ds = [] then Map_get (fst acc) k
      else Some (last (filter (\<lambda>d. extension_key pf d = k) ds)))"
  by (induction ds rule: rev_induct) (simp_all add: merge_extension_fst Map_get_set)

lemma Map_set_entries: "set (Map_set k v m) \<subseteq> insert (k, v) (set m)"
proof (induction m)
  case Nil
  show ?case by simp
next
  case (Cons p m)
  obtain k' v' where p: "p = (k', v')" by (cases p)
  from Cons show ?case unfolding p by (cases "k' = k") auto
qed

lemma well_keyed_merge:
  "well_keyed pf (fst acc) \<Longrightarrow> well_keyed pf (fst (foldl (merge_extension pf) acc ds))"
proof (induction ds rule: rev_induct)
  case Nil
  then show ?case by simp
next
  case (snoc x xs)
  let ?m = "fst (foldl (merge_extension pf) acc xs)"
  from snoc have wk: "well_keyed pf ?m" by simp
  have "set (Map_set (extension_key pf x) x ?m) \<subseteq> insert (extension_key pf x, x) (set ?m)"
    by (rule Map_set_entries)
  with wk have "list_all (\<lambda>p. extension_key pf (snd p) = fst p) (Map_set (extension_key pf x) x ?m)"
    by (auto simp: well_keyed_def list_all_iff)
  moreover have "distinct (Map_keys (Map_set (extension_key pf x) x ?m))"
    using wk by (simp add: well_keyed_def Map_keys_set_distinct)
  ultimately show ?case by (simp add: merge_extension_fst well_keyed_def)
qed

lemma merge_keys:
  "set (Map_keys (fst (foldl (merge_extension pf) acc ds))) =
     set (Map_keys (fst acc)) \<union> extension_key pf ` set ds"
  by (induction ds rule: rev_induct) (auto simp: merge_extension_fst Map_keys_set)

lemma well_keyed_values:
  "well_keyed pf m \<Longrightarrow> map (extension_key pf) (Map_values m) = Map_keys m"
  by (simp add: well_keyed_def Map_values_def Map_keys_def list_all_iff)

lemma well_keyed_member:
  assumes "well_keyed pf m" and "d \<in> set (Map_values m)"
  shows "Map_get m (extension_key pf d) = Some d"
proof -
  from assms(2) obtain k where kd: "(k, d) \<in> set m" by (auto simp: Map_values_def)
  with assms(1) have "k = extension_key pf d" by (auto simp: well_keyed_def list_all_iff)
  with kd assms(1) show ?thesis by (simp add: well_keyed_def Map_get_def Map_keys_def)
qed

lemma filter_key_single:
  "distinct (map f xs) \<Longrightarrow> x \<in> set xs \<Longrightarrow> filter (\<lambda>y. f y = f x) xs = [x]"
proof (induction xs)
  case Nil
  then show ?case by simp
next
  case (Cons a xs)
  show ?case
  proof (cases "a = x")
    case True
    with Cons.prems have "f x \<notin> f ` set xs" by simp
    then have "\<forall>y \<in> set xs. f y \<noteq> f x" by (metis imageI)
    then have "filter (\<lambda>y. f y = f x) xs = []" by (simp add: filter_empty_conv)
    with True show ?thesis by simp
  next
    case False
    with Cons.prems have "x \<in> set xs" by simp
    with Cons.prems have "f a \<notin> f ` set xs" by simp
    with \<open>x \<in> set xs\<close> have "f a \<noteq> f x" by (metis imageI)
    with Cons \<open>x \<in> set xs\<close> show ?thesis by simp
  qed
qed

lemma merge_warnings_grow:
  "set (snd acc) \<subseteq> set (snd (foldl (merge_extension pf) acc ds))"
  by (induction ds rule: rev_induct) (auto simp: merge_extension_snd split: option.splits)

lemma merge_warning_logged:
  assumes "filter (\<lambda>d. extension_key pf d = extension_key pf x) pre \<noteq> []"
  shows "overridden_warning
      (fsPath pf (extensionLocation
         (last (filter (\<lambda>d. extension_key pf d = extension_key pf x) pre))))
      (fsPath pf (extensionLocation x))
    \<in> set (snd (merge_sequence pf (pre @ x # post)))"
proof -
  let ?acc = "foldl (merge_extension pf) ([], []) pre"
  let ?w = "overridden_warning
      (fsPath pf (extensionLocation
         (last (filter (\<lambda>d. extension_key pf d = extension_key pf x) pre))))
      (fsPath pf (extensionLocation x))"
  have "Map_get (fst ?acc) (extension_key pf x) =
      Some (last (filter (\<lambda>d. extension_key pf d = extension_key pf x) pre))"
    using assms by (simp add: merge_get)
  then have "?w \<in> set (snd (merge_extension pf ?acc x))"
    by (simp add: merge_extension_snd)
  moreover have "set (snd (merge_extension pf ?acc x))
      \<subseteq> set (snd (foldl (merge_extension pf) (merge_extension pf ?acc x) post))"
    by (rule merge_warnings_grow)
  ultimately show ?thesis by (auto simp: merge_sequence_def)
qed

lemma merge_sequence_properties:
  fixes pf :: "('tr, 'id) platform" and ds :: "'id IExtensionDescription list"
  defines "merged \<equiv> Map_values (fst (merge_sequence pf ds))"
  shows "distinct (map (extension_key pf) merged)"
    and "set (map (extension_key pf) merged) = extension_key pf ` set ds"
    and "d \<in> set merged \<Longrightarrow>
           d = last (filter (\<lambda>x. extension_key pf x = extension_key pf d) ds)"
    and "x \<in> set ds \<Longrightarrow>
           filter (\<lambda>y. extension_key pf y = extension_key pf x) merged =
             [last (filter (\<lambda>y. extension_key pf y = extension_key pf x) ds)]"
proof -
  let ?m = "fst (merge_sequence pf ds)"
  have wk: "well_keyed pf ?m"
    unfolding merge_sequence_def
    by (rule well_keyed_merge) (simp add: well_keyed_def Map_keys_def)
  have keys: "map (extension_key pf) merged = Map_keys ?m"
    unfolding merged_def using wk by (rule well_keyed_values)
  show dist: "distinct (map (extension_key pf) merged)"
    using wk by (simp add: keys well_keyed_def)
  show "set (map (extension_key pf) merged) = extension_key pf ` set ds"
    unfolding keys merge_sequence_def
    using merge_keys [of pf "([], [])" ds] by (simp add: Map_keys_def)
  have get: "Map_get ?m k =
      (if filter (\<lambda>d. extension_key pf d = k) ds = [] then None
       else Some (last (filter (\<lambda>d. extension_key pf d = k) ds)))" for k
    unfolding merge_sequence_def
    using merge_get [of pf "([], [])" ds k] by (simp add: Map_get_def)
  show "d = last (filter (\<lambda>x. extension_key pf x = extension_key pf d) ds)"
    if "d \<in> set merged"
  proof -
    from that wk have "Map_get ?m (extension_key pf d) = Some d"
      unfolding merged_def by (intro well_keyed_member)
    then show ?thesis by (simp add: get split: if_splits)
  qed
  show "filter (\<lambda>y. extension_key pf y = extension_key pf x) merged =
      [last (filter (\<lambda>y. extension_key pf y = extension_key pf x) ds)]"
    if "x \<in> set ds"
  proof -
    let ?win = "last (filter (\<lambda>y. extension_key pf y = extension_key pf x) ds)"
    from that have ne: "filter (\<lambda>y. extension_key pf y = extension_key pf x) ds \<noteq> []"
      by (auto simp: filter_empty_conv)
    then have "?win \<in> set (filter (\<lambda>y. extension_key pf y = extension_key pf x) ds)"
      by (rule last_in_set)
    then have kw: "extension_key pf ?win = extension_key pf x" by simp
    from ne have "Map_get ?m (extension_key pf x) = Some ?win" by (simp add: get)
    then have "?win \<in> set merged" unfolding merged_def by (rule Map_get_in_values)
    from filter_key_single [OF dist this] show ?thesis by (simp add: kw)
  qed
qed

section \<open>The sample platforms\<close>

lemma sample_keys:
  "toLowerCase ''pub.ext'' = ''pub.ext''" "toLowerCase ''Pub.Ext'' = ''pub.ext''"
  "toLowerCase ''vscode.git'' = ''vscode.git''" "toLowerCase ''me.theme'' = ''me.theme''"
  by code_simp+

lemma sample_results:
  "getTranslations sample_platform ''en'' (userDataPath sample_environment) = Inr ()"
  "builtin_results sample_platform sample_environment ''en'' () =
     map Inr [[pub_ext_builtin], [git_builtin]]"
  "installed_results sample_platform sample_environment ''en'' () =
     map Inr [[pub_ext_installed], [theme_installed]]"
  by (simp_all add: builtin_results_def installed_results_def root_results_def scannerInput_def
      sample_platform_def sample_environment_def sample_scan_def)

lemma sample_merge:
  "merge_sequence sample_platform
     [pub_ext_builtin, git_builtin, pub_ext_installed, theme_installed] =
   ([(''pub.ext'', pub_ext_installed), (''vscode.git'', git_builtin),
     (''me.theme'', theme_installed)],
    [''/opt/app/extensions/pub.ext has been overridden /home/u/ext/pub.ext-2.0.0''])"
  by (simp add: merge_sequence_def merge_extension_def extension_key_def Map_get_def Map_has_def
      Let_def overridden_warning_def sample_platform_def sample_fsPath_def sample_keys
      pub_ext_builtin_def git_builtin_def pub_ext_installed_def theme_installed_def)




section \<open>Properties of the extension discovery\<close>




text \<open>
  C2. When the scans resolve, the list \<open>scanExtensions\<close> returns holds exactly one
  descriptor for each key that occurs in the results, and it is the descriptor merged last
  with that key. When a builtin result and an installed result hold descriptors with the
  same key, the one descriptor returned for the key is the last installed descriptor with
  that key, and the log has the warning that names the location of the last builtin
  descriptor with the key and of the first installed one: with one descriptor of each group,
  the installed one is returned and the warning names the two.
\<close>

theorem merged_extensions_one_per_identity:
  assumes "getTranslations pf loc (userDataPath env) = Inr tr"
    and "builtin_results pf env loc tr = map Inr bss"
    and "installed_results pf env loc tr = map Inr iss"
  shows "\<exists>merged warnings.
      outcome (fst (scanExtensions pf env log now loc)) = Inr merged \<and>
      snd (scanExtensions pf env log now loc) = log @ warnings \<and>
      distinct (map (extension_key pf) merged) \<and>
      set (map (extension_key pf) merged) = extension_key pf ` set (concat bss @ concat iss) \<and>
      (\<forall>d \<in> set merged.
         d = last (filter (\<lambda>x. extension_key pf x = extension_key pf d)
                     (concat bss @ concat iss))) \<and>
      (\<forall>b \<in> set (concat bss). \<forall>i \<in> set (concat iss).
         extension_key pf b = extension_key pf i \<longrightarrow>
           filter (\<lambda>x. extension_key pf x = extension_key pf i) merged =
             [last (filter (\<lambda>x. extension_key pf x = extension_key pf i) (concat iss))] \<and>
           last (filter (\<lambda>x. extension_key pf x = extension_key pf i) (concat iss))
             \<in> set (concat iss) \<and>
           overridden_warning
             (fsPath pf (extensionLocation
                (last (filter (\<lambda>x. extension_key pf x = extension_key pf i) (concat bss)))))
             (fsPath pf (extensionLocation
                (hd (filter (\<lambda>x. extension_key pf x = extension_key pf i) (concat iss)))))
           \<in> set warnings)"
proof -
  let ?B = "concat bss" and ?I = "concat iss"
  let ?ds = "?B @ ?I"
  let ?merged = "Map_values (fst (merge_sequence pf ?ds))"
  let ?warnings = "snd (merge_sequence pf ?ds)"
  note props = merge_sequence_properties [where pf = pf and ds = ?ds]
  have collide: "filter (\<lambda>x. extension_key pf x = extension_key pf i) ?merged =
        [last (filter (\<lambda>x. extension_key pf x = extension_key pf i) ?I)] \<and>
      last (filter (\<lambda>x. extension_key pf x = extension_key pf i) ?I) \<in> set ?I \<and>
      overridden_warning
        (fsPath pf (extensionLocation
           (last (filter (\<lambda>x. extension_key pf x = extension_key pf i) ?B))))
        (fsPath pf (extensionLocation
           (hd (filter (\<lambda>x. extension_key pf x = extension_key pf i) ?I))))
      \<in> set ?warnings"
    if b: "b \<in> set ?B" and i: "i \<in> set ?I" and same: "extension_key pf b = extension_key pf i"
    for b i
  proof -
    let ?P = "\<lambda>x. extension_key pf x = extension_key pf i"
    have neI: "filter ?P ?I \<noteq> []" using i by (auto simp: filter_empty_conv)
    have neB: "filter ?P ?B \<noteq> []" using b same by (auto simp: filter_empty_conv)
    have "i \<in> set ?ds" using i by simp
    from props(4) [OF this] neI
    have one: "filter ?P ?merged = [last (filter ?P ?I)]" by simp
    have "last (filter ?P ?I) \<in> set (filter ?P ?I)" using neI by (rule last_in_set)
    then have inst: "last (filter ?P ?I) \<in> set ?I" by simp
    from i have "\<exists>x \<in> set ?I. ?P x" by blast
    then obtain ys1 y ys2 where split: "?I = ys1 @ y # ys2" "?P y" "\<forall>z \<in> set ys1. \<not> ?P z"
      using split_list_first_prop [of ?I ?P] by blast
    then have none: "filter ?P ys1 = []" by (simp add: filter_empty_conv)
    have hd: "hd (filter ?P ?I) = y"
      by (simp only: split(1) filter_append none) (simp add: split(2))
    let ?Q = "\<lambda>d. extension_key pf d = extension_key pf y"
    have PQ: "?Q = ?P" using split(2) by simp
    have pre: "filter ?Q (?B @ ys1) = filter ?P ?B" by (simp add: PQ none)
    with neB have "filter ?Q (?B @ ys1) \<noteq> []" by simp
    from merge_warning_logged [OF this, of ys2]
    have "overridden_warning (fsPath pf (extensionLocation (last (filter ?P ?B))))
        (fsPath pf (extensionLocation y)) \<in> set (snd (merge_sequence pf ((?B @ ys1) @ y # ys2)))"
      by (simp only: pre)
    moreover have "(?B @ ys1) @ y # ys2 = ?ds" by (simp add: split(1))
    ultimately have "overridden_warning (fsPath pf (extensionLocation (last (filter ?P ?B))))
        (fsPath pf (extensionLocation (hd (filter ?P ?I)))) \<in> set ?warnings"
      by (simp only: hd)
    with one inst show ?thesis by simp
  qed
  have "outcome (fst (scanExtensions pf env log now loc)) = Inr ?merged"
    and "snd (scanExtensions pf env log now loc) = log @ ?warnings"
    by (rule scanExtensions_resolved [OF assms])+
  moreover have "\<forall>d \<in> set ?merged.
      d = last (filter (\<lambda>x. extension_key pf x = extension_key pf d) ?ds)"
    using props(3) by blast
  moreover have "\<forall>b \<in> set ?B. \<forall>i \<in> set ?I. extension_key pf b = extension_key pf i \<longrightarrow>
      filter (\<lambda>x. extension_key pf x = extension_key pf i) ?merged =
        [last (filter (\<lambda>x. extension_key pf x = extension_key pf i) ?I)] \<and>
      last (filter (\<lambda>x. extension_key pf x = extension_key pf i) ?I) \<in> set ?I \<and>
      overridden_warning
        (fsPath pf (extensionLocation
           (last (filter (\<lambda>x. extension_key pf x = extension_key pf i) ?B))))
        (fsPath pf (extensionLocation
           (hd (filter (\<lambda>x. extension_key pf x = extension_key pf i) ?I))))
      \<in> set ?warnings"
    using collide by blast
  ultimately show ?thesis
    using props(1,2) by blast
qed

theorem merged_extensions_one_per_identity_witness:
  "getTranslations sample_platform ''en'' (userDataPath sample_environment) = Inr () \<and>
   builtin_results sample_platform sample_environment ''en'' () =
     map Inr [[pub_ext_builtin], [git_builtin]] \<and>
   installed_results sample_platform sample_environment ''en'' () =
     map Inr [[pub_ext_installed], [theme_installed]] \<and>
   extension_key sample_platform pub_ext_builtin = ''pub.ext'' \<and>
   extension_key sample_platform pub_ext_installed = ''pub.ext'' \<and>
   (\<exists>merged warnings.
      outcome (fst (scanExtensions sample_platform sample_environment [] 0 ''en'')) = Inr merged \<and>
      snd (scanExtensions sample_platform sample_environment [] 0 ''en'') = warnings \<and>
      filter (\<lambda>x. extension_key sample_platform x = ''pub.ext'') merged = [pub_ext_installed] \<and>
      ''/opt/app/extensions/pub.ext has been overridden /home/u/ext/pub.ext-2.0.0''
        \<in> set warnings)"
proof -
  note h = sample_results
  have kb: "extension_key sample_platform pub_ext_builtin = ''pub.ext''"
    and ki: "extension_key sample_platform pub_ext_installed = ''pub.ext''"
    and kg: "extension_key sample_platform git_builtin = ''vscode.git''"
    and kt: "extension_key sample_platform theme_installed = ''me.theme''"
    by (simp_all add: extension_key_def sample_platform_def sample_keys
        pub_ext_builtin_def pub_ext_installed_def git_builtin_def theme_installed_def)
  have paths: "fsPath sample_platform (extensionLocation pub_ext_builtin) =
      ''/opt/app/extensions/pub.ext''"
    "fsPath sample_platform (extensionLocation pub_ext_installed) =
      ''/home/u/ext/pub.ext-2.0.0''"
    by (simp_all add: sample_platform_def sample_fsPath_def pub_ext_builtin_def
        pub_ext_installed_def)
  from merged_extensions_one_per_identity [OF h, of "[]" 0]
  obtain merged warnings where
    m: "outcome (fst (scanExtensions sample_platform sample_environment [] 0 ''en'')) = Inr merged"
    and w: "snd (scanExtensions sample_platform sample_environment [] 0 ''en'') = [] @ warnings"
    and c: "\<forall>b \<in> set (concat [[pub_ext_builtin], [git_builtin]]).
        \<forall>i \<in> set (concat [[pub_ext_installed], [theme_installed]]).
          extension_key sample_platform b = extension_key sample_platform i \<longrightarrow>
            filter (\<lambda>x. extension_key sample_platform x = extension_key sample_platform i) merged =
              [last (filter (\<lambda>x. extension_key sample_platform x = extension_key sample_platform i)
                 (concat [[pub_ext_installed], [theme_installed]]))] \<and>
            last (filter (\<lambda>x. extension_key sample_platform x = extension_key sample_platform i)
                 (concat [[pub_ext_installed], [theme_installed]]))
              \<in> set (concat [[pub_ext_installed], [theme_installed]]) \<and>
            overridden_warning
              (fsPath sample_platform (extensionLocation
                 (last (filter (\<lambda>x. extension_key sample_platform x = extension_key sample_platform i)
                    (concat [[pub_ext_builtin], [git_builtin]])))))
              (fsPath sample_platform (extensionLocation
                 (hd (filter (\<lambda>x. extension_key sample_platform x = extension_key sample_platform i)
                    (concat [[pub_ext_installed], [theme_installed]])))))
            \<in> set warnings"
    by blast
  from c [rule_format, of pub_ext_builtin pub_ext_installed]
  have "filter (\<lambda>x. extension_key sample_platform x = ''pub.ext'') merged = [pub_ext_installed]"
    and "''/opt/app/extensions/pub.ext has been overridden /home/u/ext/pub.ext-2.0.0''
      \<in> set warnings"
    by (simp_all add: kb ki kg kt paths overridden_warning_def)
  with m w h kb ki show ?thesis by simp
qed

text \<open>
  C3. When the scans resolve, the list \<open>scanExtensions\<close> returns and the warnings it logs
  are the merge of the builtin group's results in root-list order followed by the installed
  group's results in root-list order, whatever the latency of the translation load and of
  each scan. The callback that merges runs at the instant the returned promise settles,
  and by then the scan of every builtin root, and of every installed root, has settled.
\<close>

theorem scanExtensions_merge_order_fixed:
  assumes "getTranslations pf loc (userDataPath env) = Inr tr"
    and "builtin_results pf env loc tr = map Inr bss"
    and "installed_results pf env loc tr = map Inr iss"
  shows
    "outcome (fst (scanExtensions
        (pf\<lparr>getTranslations_latency := tlat, ExtensionScanner_latency := slat\<rparr>)
        env log now loc)) =
       Inr (Map_values (fst (merge_sequence pf (concat bss @ concat iss)))) \<and>
     snd (scanExtensions
        (pf\<lparr>getTranslations_latency := tlat, ExtensionScanner_latency := slat\<rparr>)
        env log now loc) =
       log @ snd (merge_sequence pf (concat bss @ concat iss)) \<and>
     (\<forall>folder \<in> set (builtinExtensionsPath env # extraBuiltinExtensionPaths env).
        now + tlat loc (userDataPath env) + slat (scannerInput pf loc tr True False folder)
          \<le> settled_at (fst (scanExtensions
                (pf\<lparr>getTranslations_latency := tlat, ExtensionScanner_latency := slat\<rparr>)
                env log now loc))) \<and>
     (\<forall>folder \<in> set (extensionsPath env # extraExtensionPaths env).
        now + tlat loc (userDataPath env) + slat (scannerInput pf loc tr False True folder)
          \<le> settled_at (fst (scanExtensions
                (pf\<lparr>getTranslations_latency := tlat, ExtensionScanner_latency := slat\<rparr>)
                env log now loc)))"
proof -
  let ?pf = "pf\<lparr>getTranslations_latency := tlat, ExtensionScanner_latency := slat\<rparr>"
  let ?started = "now + tlat loc (userDataPath env)"
  have tr: "getTranslations ?pf loc (userDataPath env) = Inr tr"
    using assms(1) by simp
  have bs: "builtin_results ?pf env loc tr = map Inr bss"
    using assms(2) by (simp add: builtin_results_def platform_latency_irrelevant)
  have ins: "installed_results ?pf env loc tr = map Inr iss"
    using assms(3) by (simp add: installed_results_def platform_latency_irrelevant)
  have seq: "merge_sequence ?pf = merge_sequence pf"
    by (simp add: fun_eq_iff merge_sequence_def platform_latency_irrelevant)
  note res = scanExtensions_resolved [OF tr bs ins, of log now, unfolded seq]
  have at: "settled_at (fst (scanExtensions ?pf env log now loc)) =
      max (settled_at (scanBuiltin ?pf env loc tr ?started))
        (max (settled_at (scanInstalled ?pf env loc tr ?started)) ?started)"
    using res(3) by simp
  have builtin_settled: "\<forall>folder \<in> set (builtinExtensionsPath env # extraBuiltinExtensionPaths env).
      ?started + slat (scannerInput pf loc tr True False folder)
        \<le> settled_at (fst (scanExtensions ?pf env log now loc))"
  proof
    fix folder
    assume "folder \<in> set (builtinExtensionsPath env # extraBuiltinExtensionPaths env)"
    from scanMultiple_settles_after_each [OF bs [unfolded builtin_results_def] this, of ?started]
    have "?started + slat (scannerInput pf loc tr True False folder)
        \<le> settled_at (scanBuiltin ?pf env loc tr ?started)"
      by (simp add: scanBuiltin_def platform_latency_irrelevant)
    then show "?started + slat (scannerInput pf loc tr True False folder)
        \<le> settled_at (fst (scanExtensions ?pf env log now loc))"
      unfolding at by (simp add: le_max_iff_disj)
  qed
  have installed_settled: "\<forall>folder \<in> set (extensionsPath env # extraExtensionPaths env).
      ?started + slat (scannerInput pf loc tr False True folder)
        \<le> settled_at (fst (scanExtensions ?pf env log now loc))"
  proof
    fix folder
    assume "folder \<in> set (extensionsPath env # extraExtensionPaths env)"
    from scanMultiple_settles_after_each [OF ins [unfolded installed_results_def] this, of ?started]
    have "?started + slat (scannerInput pf loc tr False True folder)
        \<le> settled_at (scanInstalled ?pf env loc tr ?started)"
      by (simp add: scanInstalled_def platform_latency_irrelevant)
    then show "?started + slat (scannerInput pf loc tr False True folder)
        \<le> settled_at (fst (scanExtensions ?pf env log now loc))"
      unfolding at by (simp add: le_max_iff_disj)
  qed
  from res(1,2) builtin_settled installed_settled show ?thesis by blast
qed

theorem scanExtensions_merge_order_fixed_witness:
  "getTranslations sample_platform ''en'' (userDataPath sample_environment) = Inr () \<and>
   builtin_results sample_platform sample_environment ''en'' () =
     map Inr [[pub_ext_builtin], [git_builtin]] \<and>
   installed_results sample_platform sample_environment ''en'' () =
     map Inr [[pub_ext_installed], [theme_installed]] \<and>
   outcome (fst (scanExtensions
      (sample_platform\<lparr>getTranslations_latency := \<lambda>l d. 7,
         ExtensionScanner_latency := \<lambda>i. if isBuiltin i then 40 else 0\<rparr>)
      sample_environment [] 0 ''en'')) =
     Inr [pub_ext_installed, git_builtin, theme_installed] \<and>
   outcome (fst (scanExtensions
      (sample_platform\<lparr>getTranslations_latency := \<lambda>l d. 0,
         ExtensionScanner_latency := \<lambda>i. if isBuiltin i then 0 else 40\<rparr>)
      sample_environment [] 0 ''en'')) =
     Inr [pub_ext_installed, git_builtin, theme_installed] \<and>
   47 \<le> settled_at (fst (scanExtensions
      (sample_platform\<lparr>getTranslations_latency := \<lambda>l d. 7,
         ExtensionScanner_latency := \<lambda>i. if isBuiltin i then 40 else 0\<rparr>)
      sample_environment [] 0 ''en''))"
proof -
  note h = sample_results
  have b: "isBuiltin (scannerInput sample_platform ''en'' () True False ''/opt/app/extensions'')"
    by (simp add: scannerInput_def)
  have r: "builtinExtensionsPath sample_environment = ''/opt/app/extensions''"
    by (simp add: sample_environment_def)
  from scanExtensions_merge_order_fixed [OF h, where tlat = "\<lambda>l d. 7"
      and slat = "\<lambda>i. if isBuiltin i then 40 else 0" and log = "[]" and now = 0]
    scanExtensions_merge_order_fixed [OF h, where tlat = "\<lambda>l d. 0"
      and slat = "\<lambda>i. if isBuiltin i then 0 else 40" and log = "[]" and now = 0]
  show ?thesis
    using h b by (simp add: sample_merge Map_values_def r)
qed

section \<open>Properties of the environment channel\<close>

text \<open>
  C8. The command \<^verbatim>\<open>getDiagnosticInfo\<close> always fails: for every platform, environment,
  state, caller and argument the promise \<open>call\<close> returns is rejected, with the error
  \<^verbatim>\<open>new Error("not implemented")\<close>, and the state of the channel is unchanged. The command
  never produces a result.
\<close>

theorem getDiagnosticInfo_always_fails:
  "ExtensionEnvironmentChannel_call pf env token st now context ''getDiagnosticInfo'' args =
     (\<lparr>settled_at = now, outcome = Inl (Error ''not implemented'')\<rparr>, st)"
  by (simp add: ExtensionEnvironmentChannel_call_def getDiagnosticInfo_def)

theorem getDiagnosticInfo_always_fails_witness:
  "ExtensionEnvironmentChannel_call sample_platform sample_environment ''token''
     \<lparr>telemetry_enabled = True, logged = []\<rparr> 5 \<lparr>remoteAuthority = ''host''\<rparr>
     ''getDiagnosticInfo'' None =
     (\<lparr>settled_at = 5, outcome = Inl (Error ''not implemented'')\<rparr>,
      \<lparr>telemetry_enabled = True, logged = []\<rparr>)"
  by (rule getDiagnosticInfo_always_fails)

end
